theory Spec2Isabelle
  imports Main
begin

section \<open>Python and numpy primitives used by \<open>neighbourhood_tools\<close>\<close>

text \<open>
  The module \<open>improver/utilities/neighbourhood_tools.py\<close> is embedded function by
  function. Exceptions are values: a function that may raise returns \<open>py_error + 'a\<close>,
  with \<open>Inl\<close> for the exception. \<open>assert\<close> raises \<open>AssertionError\<close>; numpy reports
  shapes that cannot be combined with \<open>ValueError\<close>; indexing an empty sequence raises
  \<open>IndexError\<close>.
\<close>

datatype py_error = AssertionError | ValueError | IndexError

definition bind_err :: "py_error + 'a \<Rightarrow> ('a \<Rightarrow> py_error + 'b) \<Rightarrow> py_error + 'b" where
  "bind_err r f = (case r of Inl e \<Rightarrow> Inl e | Inr x \<Rightarrow> f x)"

text \<open>
  Python slicing with step 1. A bound that is negative counts from the end, and every
  bound is clamped to the length, so a slice never raises; \<open>None\<close> is an omitted bound.
\<close>

definition slice_bound :: "int \<Rightarrow> nat \<Rightarrow> nat" where
  "slice_bound b n = (if b < 0 then nat (max (b + int n) 0) else min (nat b) n)"

definition slice_lo :: "int option \<Rightarrow> nat \<Rightarrow> nat" where
  "slice_lo start n = (case start of None \<Rightarrow> 0 | Some s \<Rightarrow> slice_bound s n)"

definition slice_hi :: "int option \<Rightarrow> nat \<Rightarrow> nat" where
  "slice_hi stop n = (case stop of None \<Rightarrow> n | Some e \<Rightarrow> slice_bound e n)"

definition slice_len :: "int option \<Rightarrow> int option \<Rightarrow> nat \<Rightarrow> nat" where
  "slice_len start stop n = slice_hi stop n - slice_lo start n"

definition py_slice :: "int option \<Rightarrow> int option \<Rightarrow> 'a list \<Rightarrow> 'a list" where
  "py_slice start stop xs =
     take (slice_len start stop (length xs)) (drop (slice_lo start (length xs)) xs)"

text \<open>Python indexing of a sequence: a negative index counts from the end.\<close>

definition py_index :: "'a list \<Rightarrow> int \<Rightarrow> py_error + 'a" where
  "py_index xs i =
     (let n = int (length xs); k = (if i < 0 then i + n else i)
      in if 0 \<le> k \<and> k < n then Inr (xs ! nat k) else Inl IndexError)"

subsection \<open>Array values\<close>

text \<open>
  An array of at least two dimensions, as \<open>boxsum\<close> and \<open>pad_boxsum\<close> take it: its shape
  is \<open>lead @ [nrows, ncols]\<close>, and \<open>mats\<close> holds one matrix (a list of rows) for every
  combination of indices of the leading axes, in row-major order. The shape is kept
  beside the cells because an array with no row still has a number of columns, which
  decides whether two arrays can be combined. Cells are exact numbers of any additive
  group; floating-point rounding, NaN and infinities are outside this model.
\<close>

record 'a ndarray =
  lead :: "nat list"
  nrows :: nat
  ncols :: nat
  mats :: "'a list list list"

definition wf_ndarray :: "'a ndarray \<Rightarrow> bool" where
  "wf_ndarray d \<longleftrightarrow>
     length (mats d) = prod_list (lead d) \<and>
     (\<forall>M \<in> set (mats d). length M = nrows d \<and> (\<forall>row \<in> set M. length row = ncols d))"

text \<open>\<open>data[..., r0:r1, c0:c1]\<close>: the leading axes are kept, the last two are sliced.\<close>

definition getitem :: "'a ndarray \<Rightarrow> int option \<times> int option \<Rightarrow> int option \<times> int option \<Rightarrow> 'a ndarray" where
  "getitem d rs cs =
     \<lparr> lead = lead d,
       nrows = slice_len (fst rs) (snd rs) (nrows d),
       ncols = slice_len (fst cs) (snd cs) (ncols d),
       mats = map (\<lambda>M. map (py_slice (fst cs) (snd cs)) (py_slice (fst rs) (snd rs) M)) (mats d) \<rparr>"

text \<open>
  Elementwise arithmetic broadcasts: two axis lengths combine when they are equal or one
  of them is 1, and the axis of length 1 is repeated. Any other pair of lengths raises
  \<open>ValueError\<close>. The operands that \<open>boxsum\<close> combines are slices of one array, so their
  leading axes coincide; operands whose leading axes differ are not combined by this
  model and are reported as \<open>ValueError\<close>.
\<close>

definition broadcast_dim :: "nat \<Rightarrow> nat \<Rightarrow> nat option" where
  "broadcast_dim a b =
     (if a = b then Some a else if a = 1 then Some b else if b = 1 then Some a else None)"

definition stretch :: "nat \<Rightarrow> 'a list \<Rightarrow> 'a list" where
  "stretch n xs = (if length xs = n then xs else replicate n (hd xs))"

definition broadcast_mat :: "nat \<Rightarrow> nat \<Rightarrow> 'a list list \<Rightarrow> 'a list list" where
  "broadcast_mat r c M = map (stretch c) (stretch r M)"

definition np_binop :: "('a \<Rightarrow> 'a \<Rightarrow> 'a) \<Rightarrow> 'a ndarray \<Rightarrow> 'a ndarray \<Rightarrow> py_error + 'a ndarray" where
  "np_binop f a b =
     (if lead a \<noteq> lead b then Inl ValueError
      else case broadcast_dim (nrows a) (nrows b) of
        None \<Rightarrow> Inl ValueError
      | Some r \<Rightarrow>
         (case broadcast_dim (ncols a) (ncols b) of
            None \<Rightarrow> Inl ValueError
          | Some c \<Rightarrow>
              Inr \<lparr> lead = lead a, nrows = r, ncols = c,
                    mats = map2 (\<lambda>A B. map2 (map2 f) (broadcast_mat r c A) (broadcast_mat r c B))
                             (mats a) (mats b) \<rparr>))"

definition np_sub :: "'a::ab_group_add ndarray \<Rightarrow> 'a ndarray \<Rightarrow> py_error + 'a ndarray" where
  "np_sub = np_binop (\<lambda>x y. x - y)"

definition np_add :: "'a::ab_group_add ndarray \<Rightarrow> 'a ndarray \<Rightarrow> py_error + 'a ndarray" where
  "np_add = np_binop (\<lambda>x y. x + y)"

text \<open>
  \<open>cumsum\<close> along one axis is a single left-to-right accumulation: the first entry is
  kept, every later entry is the previous total plus the entry.
\<close>

fun running :: "('a \<Rightarrow> 'a \<Rightarrow> 'a) \<Rightarrow> 'a \<Rightarrow> 'a list \<Rightarrow> 'a list" where
  "running f acc [] = []"
| "running f acc (x # xs) = f acc x # running f (f acc x) xs"

definition accumulate :: "('a \<Rightarrow> 'a \<Rightarrow> 'a) \<Rightarrow> 'a list \<Rightarrow> 'a list" where
  "accumulate f xs = (case xs of [] \<Rightarrow> [] | x # ys \<Rightarrow> x # running f x ys)"

text \<open>\<open>data.cumsum(-1)\<close>: along each row. \<open>data.cumsum(-2)\<close>: down the rows, cell by cell.\<close>

definition cumsum_m1 :: "'a::ab_group_add ndarray \<Rightarrow> 'a ndarray" where
  "cumsum_m1 d = d \<lparr> mats := map (map (accumulate (+))) (mats d) \<rparr>"

definition cumsum_m2 :: "'a::ab_group_add ndarray \<Rightarrow> 'a ndarray" where
  "cumsum_m2 d = d \<lparr> mats := map (accumulate (map2 (+))) (mats d) \<rparr>"

text \<open>
  \<open>numpy.pad\<close> is a library function; the keyword arguments that select its mode are the
  pad policy. A policy gives the value of every border cell of a one-dimensional lane
  from the widths \<open>before\<close> and \<open>after\<close>, the lane and the position of the cell relative
  to the lane (negative before it). This covers the modes that fill a lane from the lane
  itself: constant, edge, reflect, symmetric, wrap and the statistics. The axes are
  padded in order, so the lanes of the last axis already hold the rows added before.
  \<open>np_pad_last2\<close> is \<open>numpy.pad\<close> with width \<open>(0, 0)\<close> on every leading axis, which is how
  \<open>pad_boxsum\<close> calls it; it raises \<open>ValueError\<close> for a negative width. A policy is
  total here: that some modes of \<open>numpy.pad\<close> refuse to extend a lane with no cell, or
  reject their own arguments, belongs to the mode and is not modelled.
\<close>

type_synonym 'a pad_policy = "nat \<Rightarrow> nat \<Rightarrow> 'a list \<Rightarrow> int \<Rightarrow> 'a"

definition pad_lane :: "'a pad_policy \<Rightarrow> nat \<Rightarrow> nat \<Rightarrow> 'a list \<Rightarrow> 'a list" where
  "pad_lane pol b a xs =
     map (\<lambda>k. pol b a xs (int k - int b)) [0..<b] @ xs @
     map (\<lambda>k. pol b a xs (int (length xs) + int k)) [0..<a]"

definition column :: "'a list list \<Rightarrow> nat \<Rightarrow> 'a list" where
  "column M c = map (\<lambda>row. row ! c) M"

definition pad_rows :: "'a pad_policy \<Rightarrow> nat \<Rightarrow> nat \<Rightarrow> nat \<Rightarrow> 'a list list \<Rightarrow> 'a list list" where
  "pad_rows pol b a nc M =
     map (\<lambda>k. map (\<lambda>c. pol b a (column M c) (int k - int b)) [0..<nc]) [0..<b] @ M @
     map (\<lambda>k. map (\<lambda>c. pol b a (column M c) (int (length M) + int k)) [0..<nc]) [0..<a]"

definition np_pad_last2 :: "'a ndarray \<Rightarrow> int \<times> int \<Rightarrow> int \<times> int \<Rightarrow> 'a pad_policy \<Rightarrow> py_error + 'a ndarray" where
  "np_pad_last2 d rp cp pol =
     (if fst rp < 0 \<or> snd rp < 0 \<or> fst cp < 0 \<or> snd cp < 0 then Inl ValueError
      else
        let rb = nat (fst rp); ra = nat (snd rp); cb = nat (fst cp); ca = nat (snd cp)
        in Inr \<lparr> lead = lead d,
                 nrows = rb + nrows d + ra,
                 ncols = cb + ncols d + ca,
                 mats = map (\<lambda>M. map (pad_lane pol cb ca) (pad_rows pol rb ra (ncols d) M)) (mats d) \<rparr>)"

text \<open>The pad policy of \<open>mode='constant'\<close> with \<open>constant_values=v\<close>.\<close>

definition constant_pad :: "'a \<Rightarrow> 'a pad_policy" where
  "constant_pad v = (\<lambda>b a xs p. v)"

text \<open>
  \<open>boxsize\<close> is an int or a sequence of ints; \<open>np.atleast_1d\<close> turns either into a
  one-dimensional array.
\<close>

datatype boxsize = Scalar int | Seq "int list"

fun atleast_1d :: "boxsize \<Rightarrow> int list" where
  "atleast_1d (Scalar b) = [b]"
| "atleast_1d (Seq bs) = bs"

section \<open>\<open>pad_boxsum\<close> and \<open>boxsum\<close>\<close>

definition pad_boxsum :: "'a ndarray \<Rightarrow> boxsize \<Rightarrow> 'a pad_policy \<Rightarrow> py_error + 'a ndarray" where
  "pad_boxsum data boxsize pad_options =
     (let bs = atleast_1d boxsize in
      bind_err (py_index bs 0) (\<lambda>b0.
      bind_err (py_index bs (- 1)) (\<lambda>b1.
        let ih = b0 div 2; jh = b1 div 2
        in np_pad_last2 data (ih + 1, ih) (jh + 1, jh) pad_options)))"

text \<open>
  The last statement of \<open>boxsum\<close>: with \<open>m\<close> and \<open>n\<close> the extents of the array less
  the box extents, four slices of the accumulated array are combined elementwise.
\<close>

definition table_differences :: "'a::ab_group_add ndarray \<Rightarrow> int \<Rightarrow> int \<Rightarrow> py_error + 'a ndarray" where
  "table_differences data i j =
     (let m = int (nrows data) - i; n = int (ncols data) - j in
      bind_err (np_sub (getitem data (Some i, Some (i + m)) (Some j, Some (j + n)))
                       (getitem data (None, Some m) (Some j, Some (j + n)))) (\<lambda>t1.
      bind_err (np_add t1 (getitem data (None, Some m) (None, Some n))) (\<lambda>t2.
        np_sub t2 (getitem data (Some i, Some (i + m)) (None, Some n)))))"

text \<open>
  \<open>pad_options\<close> is the dictionary of keyword arguments: \<open>None\<close> when the caller gave
  none (the dictionary is empty, so \<open>if pad_options\<close> is false), \<open>Some pol\<close> otherwise.
\<close>

definition boxsum :: "'a::ab_group_add ndarray \<Rightarrow> boxsize \<Rightarrow> bool \<Rightarrow> 'a pad_policy option \<Rightarrow> py_error + 'a ndarray" where
  "boxsum data boxsize cumsum pad_options =
     (let bs = atleast_1d boxsize in
      bind_err (case pad_options of
                  None \<Rightarrow> Inr data
                | Some pol \<Rightarrow> pad_boxsum data (Seq bs) pol) (\<lambda>data1.
        let data2 = (if cumsum then cumsum_m1 (cumsum_m2 data1) else data1) in
        bind_err (py_index bs 0) (\<lambda>i.
        bind_err (py_index bs (- 1)) (\<lambda>j.
          table_differences data2 i j))))"

section \<open>Array headers: \<open>rolling_window\<close> and \<open>pad_and_roll\<close>\<close>

text \<open>
  \<open>rolling_window\<close> builds no cells: it computes a shape and strides and hands them to
  \<open>as_strided\<close>, which returns a second header over the memory of its argument. A header
  holds the shape, the strides (in bytes, one per axis), the address of the cell with
  index zero on every axis, the size of a cell and the writeable flag. Memory maps an
  address to the cell stored there.

  \<open>as_strided\<close> is a numpy function: it raises \<open>ValueError\<close> when shape and strides
  differ in length or an extent is negative, and the view it returns is writeable only
  if the caller asks for it and the array it is laid over is writeable.
\<close>

record view =
  shape :: "int list"
  strides :: "int list"
  base :: int
  itemsize :: int
  writeable :: bool

type_synonym 'a memory = "int \<Rightarrow> 'a"

definition as_strided :: "view \<Rightarrow> int list \<Rightarrow> int list \<Rightarrow> bool \<Rightarrow> py_error + view" where
  "as_strided x shp strd wr =
     (if length shp \<noteq> length strd \<or> (\<exists>d \<in> set shp. d < 0) then Inl ValueError
      else Inr \<lparr> shape = shp, strides = strd, base = base x, itemsize = itemsize x,
                 writeable = (writeable x \<and> wr) \<rparr>)"

definition rolling_window :: "view \<Rightarrow> int list \<Rightarrow> bool \<Rightarrow> py_error + view" where
  "rolling_window input_array shp wr =
     (let num_window_dims = int (length shp);
          num_arr_dims = int (length (shape input_array))
      in if \<not> num_arr_dims \<ge> num_window_dims then Inl AssertionError
         else
           let adjshp =
                 py_slice None (Some (- num_window_dims)) (shape input_array) @
                 map (\<lambda>(arr_dims, win_dims). arr_dims - win_dims + 1)
                   (zip (py_slice (Some (- num_window_dims)) None (shape input_array)) shp) @
                 shp
           in if \<not> list_all (\<lambda>arr_dims. arr_dims > 0) adjshp then Inl AssertionError
              else as_strided input_array adjshp
                     (strides input_array @
                      py_slice (Some (- num_window_dims)) None (strides input_array)) wr)"

text \<open>
  \<open>numpy.pad\<close> on a header: the widths are a list of pairs. An empty list and a negative
  width raise \<open>ValueError\<close>, a single pair is used for every axis, and any other list must
  have one pair per axis. The result is a new array, contiguous in row-major order, at
  an address of its own (\<open>fresh\<close>); its cells are not needed for the shapes below.
\<close>

definition np_pad_widths :: "(int \<times> int) list \<Rightarrow> nat \<Rightarrow> py_error + (int \<times> int) list" where
  "np_pad_widths pads ndim =
     (if pads = [] \<or> (\<exists>p \<in> set pads. fst p < 0 \<or> snd p < 0) then Inl ValueError
      else if length pads = 1 then Inr (replicate ndim (hd pads))
      else if length pads = ndim then Inr pads
      else Inl ValueError)"

definition c_strides :: "int \<Rightarrow> int list \<Rightarrow> int list" where
  "c_strides sz shp = map (\<lambda>k. sz * prod_list (drop (Suc k) shp)) [0..<length shp]"

definition np_pad_view :: "view \<Rightarrow> (int \<times> int) list \<Rightarrow> int \<Rightarrow> py_error + view" where
  "np_pad_view x pads fresh =
     bind_err (np_pad_widths pads (length (shape x))) (\<lambda>ws.
       let shp = map (\<lambda>(g, p). fst p + g + snd p) (zip (shape x) ws)
       in Inr \<lparr> shape = shp, strides = c_strides (itemsize x) shp, base = fresh,
                itemsize = itemsize x, writeable = True \<rparr>)"

definition pad_and_roll :: "view \<Rightarrow> int list \<Rightarrow> bool \<Rightarrow> int \<Rightarrow> py_error + view" where
  "pad_and_roll input_array shp wr fresh =
     (let pad_extent =
            replicate (nat (int (length (shape input_array)) - int (length shp))) (0, 0) @
            map (\<lambda>d. (d div 2, d div 2)) shp
      in bind_err (np_pad_view input_array pad_extent fresh) (\<lambda>padded.
           rolling_window padded shp wr))"

text \<open>
  Reading and writing one cell through a header, with one integer index per axis (a
  negative index counts from the end; an index out of range raises \<open>IndexError\<close>). A
  write through a header that is not writeable raises \<open>ValueError\<close> before the index is
  looked at, and leaves the memory as it was. Fewer indices than axes select a
  sub-array, which is not a cell: such an access is outside this model and reported as
  \<open>IndexError\<close>.
\<close>

definition address :: "view \<Rightarrow> int list \<Rightarrow> int" where
  "address v idx = base v + sum_list (map2 (*) idx (strides v))"

definition norm_index :: "int list \<Rightarrow> int list \<Rightarrow> py_error + int list" where
  "norm_index shp idx =
     (if length idx \<noteq> length shp then Inl IndexError
      else if list_all2 (\<lambda>i n. - n \<le> i \<and> i < n) idx shp
           then Inr (map2 (\<lambda>i n. if i < 0 then i + n else i) idx shp)
           else Inl IndexError)"

definition view_get :: "'a memory \<Rightarrow> view \<Rightarrow> int list \<Rightarrow> py_error + 'a" where
  "view_get mem v idx = bind_err (norm_index (shape v) idx) (\<lambda>k. Inr (mem (address v k)))"

definition view_set :: "'a memory \<Rightarrow> view \<Rightarrow> int list \<Rightarrow> 'a \<Rightarrow> py_error + 'a memory" where
  "view_set mem v idx x =
     (if \<not> writeable v then Inl ValueError
      else bind_err (norm_index (shape v) idx) (\<lambda>k. Inr (mem (address v k := x))))"

section \<open>Reference definitions\<close>

text \<open>
  The brute-force box sum the summed-area table is compared with: \<open>window_sum M i j r c\<close>
  adds the \<open>i\<close> by \<open>j\<close> cells of \<open>M\<close> whose first cell is \<open>(r, c)\<close>, one by one. The
  output cell \<open>(r, c)\<close> of \<open>boxsum\<close> belongs to the window that starts at \<open>(r + 1, c + 1)\<close>,
  which after \<open>pad_boxsum\<close> with an odd box is the window centred on cell \<open>(r, c)\<close> of the
  unpadded array.
\<close>

definition window_sum :: "'a::ab_group_add list list \<Rightarrow> nat \<Rightarrow> nat \<Rightarrow> nat \<Rightarrow> nat \<Rightarrow> 'a" where
  "window_sum M i j r c = (\<Sum>a\<leftarrow>[0..<i]. \<Sum>b\<leftarrow>[0..<j]. M ! (r + a) ! (c + b))"

definition brute_boxsum :: "'a::ab_group_add ndarray \<Rightarrow> nat \<Rightarrow> nat \<Rightarrow> 'a ndarray" where
  "brute_boxsum d i j =
     \<lparr> lead = lead d, nrows = nrows d - i, ncols = ncols d - j,
       mats = map (\<lambda>M. map (\<lambda>r. map (\<lambda>c. window_sum M i j (Suc r) (Suc c)) [0..<ncols d - j])
                          [0..<nrows d - i]) (mats d) \<rparr>"

text \<open>
  The shape of a window view as the specification gives it: the leading axes, then every
  spatial extent less the window extent plus 1, then the window shape.
\<close>

definition view_shape :: "int list \<Rightarrow> int list \<Rightarrow> int list" where
  "view_shape shp W =
     take (length shp - length W) shp @
     map2 (\<lambda>g w. g - w + 1) (drop (length shp - length W) shp) W @ W"

text \<open>
  A three-dimensional array is a batch of matrices: \<open>batch_slice d b\<close> is \<open>d[b]\<close>, and
  \<open>np_stack\<close> stacks two-dimensional arrays of one shape along a new leading axis
  (\<open>ValueError\<close> for no array or for differing shapes). \<open>stack_results\<close> stacks the
  results of calls that may have raised: the first exception wins.
\<close>

definition batch_slice :: "'a ndarray \<Rightarrow> nat \<Rightarrow> 'a ndarray" where
  "batch_slice d b = \<lparr> lead = [], nrows = nrows d, ncols = ncols d, mats = [mats d ! b] \<rparr>"

definition np_stack :: "'a ndarray list \<Rightarrow> py_error + 'a ndarray" where
  "np_stack ds =
     (case ds of
        [] \<Rightarrow> Inl ValueError
      | d # rest \<Rightarrow>
          if \<forall>e \<in> set rest. lead e = lead d \<and> nrows e = nrows d \<and> ncols e = ncols d
          then Inr \<lparr> lead = length ds # lead d, nrows = nrows d, ncols = ncols d,
                     mats = concat (map mats ds) \<rparr>
          else Inl ValueError)"

fun collect_results :: "(py_error + 'a) list \<Rightarrow> py_error + 'a list" where
  "collect_results [] = Inr []"
| "collect_results (r # rs) =
     bind_err r (\<lambda>x. bind_err (collect_results rs) (\<lambda>xs. Inr (x # xs)))"

definition stack_results :: "(py_error + 'a ndarray) list \<Rightarrow> py_error + 'a ndarray" where
  "stack_results rs = bind_err (collect_results rs) np_stack"

subsection \<open>Auxiliary notions for the proofs\<close>

definition is_mat :: "nat \<Rightarrow> nat \<Rightarrow> 'a list list \<Rightarrow> bool" where
  "is_mat r c M \<longleftrightarrow> length M = r \<and> (\<forall>row \<in> set M. length row = c)"

text \<open>The summed-area table of one matrix, and the four-corner combination of a table.\<close>

definition table :: "'a::ab_group_add list list \<Rightarrow> 'a list list" where
  "table M = map (accumulate (+)) (accumulate (map2 (+)) M)"

definition diff_mat :: "nat \<Rightarrow> nat \<Rightarrow> nat \<Rightarrow> nat \<Rightarrow> 'a::ab_group_add list list \<Rightarrow> 'a list list" where
  "diff_mat R C I J T =
     map2 (map2 (-))
       (map2 (map2 (+))
          (map2 (map2 (-)) (map (drop J) (drop I T)) (map (drop J) (take (R - I) T)))
          (map (take (C - J)) (take (R - I) T)))
       (map (take (C - J)) (drop I T))"

text \<open>The padding that \<open>pad_boxsum\<close> applies to one matrix for box extents \<open>I\<close> by \<open>J\<close>.\<close>

definition pad_mat :: "'a pad_policy \<Rightarrow> nat \<Rightarrow> nat \<Rightarrow> nat \<Rightarrow> 'a list list \<Rightarrow> 'a list list" where
  "pad_mat pol I J nc M =
     map (pad_lane pol (J div 2 + 1) (J div 2)) (pad_rows pol (I div 2 + 1) (I div 2) nc M)"

section \<open>Example arrays\<close>

definition g44 :: "int ndarray" where
  "g44 = \<lparr> lead = [], nrows = 4, ncols = 4,
           mats = [[[1, 2, 3, 4], [5, 6, 7, 8], [9, 10, 11, 12], [13, 14, 15, 16]]] \<rparr>"

definition v45 :: view where
  "v45 = \<lparr> shape = [4, 5], strides = [40, 8], base = 1000, itemsize = 8, writeable = True \<rparr>"

definition v033 :: view where
  "v033 = \<lparr> shape = [0, 3, 3], strides = [72, 24, 8], base = 1000, itemsize = 8, writeable = True \<rparr>"

definition v03 :: view where
  "v03 = \<lparr> shape = [0, 3], strides = [24, 8], base = 1000, itemsize = 8, writeable = True \<rparr>"

definition mem0 :: "int memory" where
  "mem0 = (\<lambda>a. 0)"

definition ones44 :: "int ndarray" where
  "ones44 = \<lparr> lead = [], nrows = 4, ncols = 4,
              mats = [[[1, 1, 1, 1], [1, 1, 1, 1], [1, 1, 1, 1], [1, 1, 1, 1]]] \<rparr>"

definition ones22 :: "int ndarray" where
  "ones22 = \<lparr> lead = [], nrows = 2, ncols = 2, mats = [[[1, 1], [1, 1]]] \<rparr>"

definition ones33 :: "int ndarray" where
  "ones33 = \<lparr> lead = [], nrows = 3, ncols = 3, mats = [[[1, 1, 1], [1, 1, 1], [1, 1, 1]]] \<rparr>"


definition batch2 :: "int ndarray" where
  "batch2 = \<lparr> lead = [2], nrows = 2, ncols = 2, mats = [[[1, 2], [3, 4]], [[5, 6], [7, 8]]] \<rparr>"

section \<open>Lemmas on accumulation and the summed-area table\<close>

lemma length_running: "length (running f acc xs) = length xs"
  by (induction xs arbitrary: acc) simp_all

lemma length_accumulate: "length (accumulate f xs) = length xs"
  by (simp add: accumulate_def length_running split: list.splits)

lemma running_plus_nth:
  fixes acc :: "'a::ab_group_add"
  shows "k < length xs \<Longrightarrow> running (+) acc xs ! k = acc + (\<Sum>t<Suc k. xs ! t)"
proof (induction xs arbitrary: acc k)
  case Nil
  then show ?case by simp
next
  case (Cons x xs)
  show ?case
  proof (cases k)
    case 0
    then show ?thesis by simp
  next
    case (Suc k')
    with Cons.prems have "k' < length xs" by simp
    from Cons.IH[OF this, of "acc + x"] Suc show ?thesis
      by (simp add: sum.lessThan_Suc_shift add.assoc del: sum.lessThan_Suc)
  qed
qed

lemma accumulate_plus_nth:
  fixes xs :: "'a::ab_group_add list"
  assumes "k < length xs"
  shows "accumulate (+) xs ! k = (\<Sum>t<Suc k. xs ! t)"
proof (cases xs)
  case Nil
  with assms show ?thesis by simp
next
  case (Cons x ys)
  show ?thesis
  proof (cases k)
    case 0
    with Cons show ?thesis by (simp add: accumulate_def)
  next
    case (Suc k')
    with assms Cons have "k' < length ys" by simp
    from running_plus_nth[OF this, of x] Suc Cons show ?thesis
      by (simp add: accumulate_def sum.lessThan_Suc_shift del: sum.lessThan_Suc)
  qed
qed

lemma running_rows_length:
  "length acc = n \<Longrightarrow> \<forall>row \<in> set M. length row = n \<Longrightarrow>
   \<forall>row \<in> set (running (map2 f) acc M). length row = n"
proof (induction M arbitrary: acc)
  case Nil
  then show ?case by simp
next
  case (Cons x xs)
  have "length (map2 f acc x) = n" using Cons.prems by simp
  moreover have "\<forall>row \<in> set xs. length row = n" using Cons.prems by simp
  ultimately have "\<forall>row \<in> set (running (map2 f) (map2 f acc x) xs). length row = n"
    by (rule Cons.IH)
  then show ?case using Cons.prems by simp
qed

lemma accumulate_rows_length:
  "\<forall>row \<in> set M. length row = n \<Longrightarrow> \<forall>row \<in> set (accumulate (map2 f) M). length row = n"
proof (cases M)
  case Nil
  then show ?thesis by (simp add: accumulate_def)
next
  case (Cons x ys)
  assume a: "\<forall>row \<in> set M. length row = n"
  with Cons have "length x = n" "\<forall>row \<in> set ys. length row = n" by simp_all
  from running_rows_length[OF this, of f] Cons \<open>length x = n\<close> show ?thesis
    by (simp add: accumulate_def)
qed

lemma running_rows_nth:
  fixes acc :: "'a::ab_group_add list"
  shows "k < length M \<Longrightarrow> c < n \<Longrightarrow> length acc = n \<Longrightarrow> \<forall>row \<in> set M. length row = n \<Longrightarrow>
    running (map2 (+)) acc M ! k ! c = acc ! c + (\<Sum>t<Suc k. M ! t ! c)"
proof (induction M arbitrary: acc k)
  case Nil
  then show ?case by simp
next
  case (Cons x xs)
  show ?case
  proof (cases k)
    case 0
    with Cons.prems show ?thesis by simp
  next
    case (Suc k')
    with Cons.prems have k': "k' < length xs" by simp
    have len: "length (map2 (+) acc x) = n" using Cons.prems by simp
    have rows: "\<forall>row \<in> set xs. length row = n" using Cons.prems by simp
    from Cons.IH[OF k' Cons.prems(2) len rows] Suc Cons.prems show ?thesis
      by (simp add: sum.lessThan_Suc_shift add.assoc del: sum.lessThan_Suc)
  qed
qed

lemma accumulate_rows_nth:
  fixes M :: "'a::ab_group_add list list"
  assumes "k < length M" "c < n" "\<forall>row \<in> set M. length row = n"
  shows "accumulate (map2 (+)) M ! k ! c = (\<Sum>t<Suc k. M ! t ! c)"
proof (cases M)
  case Nil
  with assms show ?thesis by simp
next
  case (Cons x ys)
  show ?thesis
  proof (cases k)
    case 0
    with Cons show ?thesis by (simp add: accumulate_def)
  next
    case (Suc k')
    with assms Cons have k': "k' < length ys" by simp
    have len: "length x = n" and rows: "\<forall>row \<in> set ys. length row = n"
      using assms Cons by simp_all
    from running_rows_nth[OF k' assms(2) len rows] Suc Cons show ?thesis
      by (simp add: accumulate_def sum.lessThan_Suc_shift del: sum.lessThan_Suc)
  qed
qed

lemma sum_split_shift:
  fixes g :: "nat \<Rightarrow> 'a::ab_group_add"
  shows "(\<Sum>x<a + i. g x) = (\<Sum>x<a. g x) + (\<Sum>x<i. g (a + x))"
  by (induction i) (simp_all add: add.assoc)

lemma inclusion_exclusion:
  fixes f :: "nat \<Rightarrow> nat \<Rightarrow> 'a::ab_group_add"
  shows "(\<Sum>y<b + j. \<Sum>x<a + i. f x y) - (\<Sum>y<b + j. \<Sum>x<a. f x y)
         + (\<Sum>y<b. \<Sum>x<a. f x y) - (\<Sum>y<b. \<Sum>x<a + i. f x y)
       = (\<Sum>x<i. \<Sum>y<j. f (a + x) (b + y))"
proof -
  have 1: "\<And>y. (\<Sum>x<a + i. f x y) = (\<Sum>x<a. f x y) + (\<Sum>x<i. f (a + x) y)"
    by (rule sum_split_shift)
  have 2: "\<And>h. (\<Sum>y<b + j. h y) = (\<Sum>y<b. h y) + (\<Sum>y<j. h (b + y :: nat) :: 'a)"
    by (rule sum_split_shift)
  have "(\<Sum>x<i. \<Sum>y<j. f (a + x) (b + y)) = (\<Sum>y<j. \<Sum>x<i. f (a + x) (b + y))"
    by (rule sum.swap)
  then show ?thesis
    by (simp add: 1 2 sum.distrib)
qed


lemma window_sum_sum:
  "window_sum M i j r c = (\<Sum>a<i. \<Sum>b<j. M ! (r + a) ! (c + b))"
  by (simp add: window_sum_def interv_sum_list_conv_sum_set_nat atLeast0LessThan)

lemma length_table: "length (table M) = length M"
  by (simp add: table_def length_accumulate)

lemma table_row_length:
  assumes "\<forall>row \<in> set M. length row = C" "r < length M"
  shows "length (table M ! r) = C"
proof -
  have "accumulate (map2 (+)) M ! r \<in> set (accumulate (map2 (+)) M)"
    using assms(2) by (simp add: length_accumulate)
  with accumulate_rows_length[OF assms(1), of "(+)"] have "length (accumulate (map2 (+)) M ! r) = C"
    by blast
  then show ?thesis using assms(2) by (simp add: table_def length_accumulate)
qed

lemma table_nth:
  assumes rows: "\<forall>row \<in> set M. length row = C" and r: "r < length M" and c: "c < C"
  shows "table M ! r ! c = (\<Sum>y<Suc c. \<Sum>x<Suc r. M ! x ! y)"
proof -
  let ?N = "accumulate (map2 (+)) M"
  have "?N ! r \<in> set ?N" using r by (simp add: length_accumulate)
  with accumulate_rows_length[OF rows, of "(+)"] have len: "length (?N ! r) = C" by blast
  have "table M ! r ! c = accumulate (+) (?N ! r) ! c"
    using r by (simp add: table_def length_accumulate)
  also have "\<dots> = (\<Sum>y<Suc c. ?N ! r ! y)"
    using c len by (simp add: accumulate_plus_nth del: sum.lessThan_Suc)
  also have "\<dots> = (\<Sum>y<Suc c. \<Sum>x<Suc r. M ! x ! y)"
  proof (rule sum.cong)
    fix y assume "y \<in> {..<Suc c}"
    then have "y < C" using c by simp
    from accumulate_rows_nth[OF r this rows] show "?N ! r ! y = (\<Sum>x<Suc r. M ! x ! y)" .
  qed simp
  finally show ?thesis .
qed

lemma table_window:
  assumes rows: "\<forall>row \<in> set M. length row = C" and "I + r < length M" "J + c < C"
  shows "table M ! (I + r) ! (J + c) - table M ! r ! (J + c) + table M ! r ! c - table M ! (I + r) ! c
         = window_sum M I J (Suc r) (Suc c)"
proof -
  have r: "r < length M" "I + r < length M" and c: "c < C" "J + c < C" using assms by simp_all
  have e: "Suc (I + r) = Suc r + I" "Suc (J + c) = Suc c + J" by simp_all
  show ?thesis
    unfolding table_nth[OF rows r(1) c(1)] table_nth[OF rows r(1) c(2)]
      table_nth[OF rows r(2) c(1)] table_nth[OF rows r(2) c(2)] e window_sum_sum
    by (rule inclusion_exclusion)
qed


lemma wf_ndarray_is_mat: "wf_ndarray d \<Longrightarrow> M \<in> set (mats d) \<Longrightarrow> is_mat (nrows d) (ncols d) M"
  by (simp add: wf_ndarray_def is_mat_def)

lemma broadcast_mat_id: "is_mat r c M \<Longrightarrow> broadcast_mat r c M = M"
  by (simp add: is_mat_def broadcast_mat_def stretch_def map_idI)

lemma map2_map_map: "map2 g (map f1 xs) (map f2 xs) = map (\<lambda>x. g (f1 x) (f2 x)) xs"
  by (induction xs) simp_all

lemma is_mat_map2:
  "is_mat r c A \<Longrightarrow> is_mat r c B \<Longrightarrow> is_mat r c (map2 (map2 f) A B)"
proof -
  assume A: "is_mat r c A" and B: "is_mat r c B"
  have "length (map2 f a b) = c" if "(a, b) \<in> set (zip A B)" for a b
  proof -
    from that have "a \<in> set A" "b \<in> set B" by (auto dest: set_zip_leftD set_zip_rightD)
    with A B show ?thesis by (simp add: is_mat_def)
  qed
  then show ?thesis using A B by (auto simp: is_mat_def)
qed

lemma np_binop_map:
  assumes "\<forall>x \<in> set xs. is_mat r c (fa x) \<and> is_mat r c (fb x)"
  shows "np_binop f \<lparr> lead = L, nrows = r, ncols = c, mats = map fa xs \<rparr>
                    \<lparr> lead = L, nrows = r, ncols = c, mats = map fb xs \<rparr>
         = Inr \<lparr> lead = L, nrows = r, ncols = c, mats = map (\<lambda>x. map2 (map2 f) (fa x) (fb x)) xs \<rparr>"
  using assms by (simp add: np_binop_def broadcast_dim_def map2_map_map broadcast_mat_id)

lemma slice_bound_nat: "i \<le> n \<Longrightarrow> slice_bound (int i) n = i"
  by (simp add: slice_bound_def)

lemma py_slice_from: "i \<le> length xs \<Longrightarrow> py_slice (Some (int i)) (Some (int (length xs))) xs = drop i xs"
  by (simp add: py_slice_def slice_len_def slice_lo_def slice_hi_def slice_bound_nat)

lemma nat_int_diff: "nat (int n - int i) = n - i"
  by arith

lemma py_slice_upto: "i \<le> length xs \<Longrightarrow> py_slice None (Some (int (length xs) - int i)) xs = take (length xs - i) xs"
  by (simp add: py_slice_def slice_len_def slice_lo_def slice_hi_def slice_bound_def nat_int_diff)

lemma is_mat_table: "is_mat r c M \<Longrightarrow> is_mat r c (table M)"
  unfolding is_mat_def
proof (intro conjI ballI)
  assume M: "length M = r \<and> (\<forall>row \<in> set M. length row = c)"
  then show "length (table M) = r" by (simp add: length_table)
  fix row assume "row \<in> set (table M)"
  then obtain k where "k < length (table M)" "row = table M ! k" by (auto simp: in_set_conv_nth)
  with M show "length row = c" using table_row_length[of M c k] by (simp add: length_table)
qed


lemma is_mat_slices:
  assumes "is_mat R C T" "I \<le> R" "J \<le> C"
  shows "is_mat (R - I) (C - J) (map (drop J) (drop I T))"
    and "is_mat (R - I) (C - J) (map (drop J) (take (R - I) T))"
    and "is_mat (R - I) (C - J) (map (take (C - J)) (take (R - I) T))"
    and "is_mat (R - I) (C - J) (map (take (C - J)) (drop I T))"
  using assms by (auto simp: is_mat_def dest: in_set_dropD in_set_takeD)


lemma diff_mat_nth:
  fixes T :: "'a::ab_group_add list list"
  assumes T: "is_mat R C T" and r: "I + r < R" and c: "J + c < C"
  shows "diff_mat R C I J T ! r ! c = T ! (I + r) ! (J + c) - T ! r ! (J + c) + T ! r ! c - T ! (I + r) ! c"
proof -
  have len: "length T = R" and rows: "\<And>k. k < R \<Longrightarrow> length (T ! k) = C"
    using T by (simp_all add: is_mat_def)
  have "length (T ! (I + r)) = C" "length (T ! r) = C" using rows r by simp_all
  then show ?thesis using r c len by (simp add: diff_mat_def)
qed

lemma is_mat_diff_mat:
  fixes T :: "'a::ab_group_add list list"
  assumes "is_mat R C T" "I \<le> R" "J \<le> C"
  shows "is_mat (R - I) (C - J) (diff_mat R C I J T)"
  unfolding diff_mat_def using is_mat_slices[OF assms] by (intro is_mat_map2)

lemma mat_ext:
  assumes "is_mat r c A" "is_mat r c B" "\<And>x y. x < r \<Longrightarrow> y < c \<Longrightarrow> A ! x ! y = B ! x ! y"
  shows "A = B"
proof (rule nth_equalityI)
  show "length A = length B" using assms by (simp add: is_mat_def)
  fix x assume "x < length A"
  then have x: "x < r" using assms by (simp add: is_mat_def)
  then have l: "length (A ! x) = c" "length (B ! x) = c" using assms by (simp_all add: is_mat_def)
  show "A ! x = B ! x"
    by (rule nth_equalityI) (use l x assms(3) in simp_all)
qed

lemma mat_formula:
  fixes M :: "'a::ab_group_add list list"
  assumes M: "is_mat R C M" and I: "I \<le> R" and J: "J \<le> C"
  shows "diff_mat R C I J (table M)
         = map (\<lambda>r. map (\<lambda>c. window_sum M I J (Suc r) (Suc c)) [0..<C - J]) [0..<R - I]"
proof (rule mat_ext[of "R - I" "C - J"])
  have rows: "\<forall>row \<in> set M. length row = C" and lenM: "length M = R"
    using M by (simp_all add: is_mat_def)
  show "is_mat (R - I) (C - J) (diff_mat R C I J (table M))"
    using is_mat_diff_mat[OF is_mat_table[OF M] I J] .
  show "is_mat (R - I) (C - J)
          (map (\<lambda>r. map (\<lambda>c. window_sum M I J (Suc r) (Suc c)) [0..<C - J]) [0..<R - I])"
    by (simp add: is_mat_def)
  fix x y assume x: "x < R - I" and y: "y < C - J"
  then have b: "I + x < R" "J + y < C" by simp_all
  show "diff_mat R C I J (table M) ! x ! y
        = map (\<lambda>r. map (\<lambda>c. window_sum M I J (Suc r) (Suc c)) [0..<C - J]) [0..<R - I] ! x ! y"
    using diff_mat_nth[OF is_mat_table[OF M] b] table_window[OF rows, of I x J y] b lenM x y
    by simp
qed

lemma slice_len_from: "i \<le> n \<Longrightarrow> slice_len (Some (int i)) (Some (int n)) n = n - i"
  by (simp add: slice_len_def slice_lo_def slice_hi_def slice_bound_nat)

lemma slice_len_upto: "i \<le> n \<Longrightarrow> slice_len None (Some (int n - int i)) n = n - i"
  by (simp add: slice_len_def slice_lo_def slice_hi_def slice_bound_def nat_int_diff)

lemma mats_accumulated: "mats (cumsum_m1 (cumsum_m2 p)) = map table (mats p)"
  by (simp add: cumsum_m1_def cumsum_m2_def table_def)

lemma shape_accumulated:
  "lead (cumsum_m1 (cumsum_m2 p)) = lead p"
  "nrows (cumsum_m1 (cumsum_m2 p)) = nrows p"
  "ncols (cumsum_m1 (cumsum_m2 p)) = ncols p"
  by (simp_all add: cumsum_m1_def cumsum_m2_def)

lemma slice_mat:
  assumes T: "is_mat R C T" and I: "I \<le> R" and J: "J \<le> C"
  shows "map (py_slice (Some (int J)) (Some (int C))) (py_slice (Some (int I)) (Some (int R)) T)
           = map (drop J) (drop I T)"
    and "map (py_slice (Some (int J)) (Some (int C))) (py_slice None (Some (int R - int I)) T)
           = map (drop J) (take (R - I) T)"
    and "map (py_slice None (Some (int C - int J))) (py_slice None (Some (int R - int I)) T)
           = map (take (C - J)) (take (R - I) T)"
    and "map (py_slice None (Some (int C - int J))) (py_slice (Some (int I)) (Some (int R)) T)
           = map (take (C - J)) (drop I T)"
proof -
  have len: "length T = R" and rows: "\<And>row. row \<in> set T \<Longrightarrow> length row = C"
    using T by (simp_all add: is_mat_def)
  have rs: "py_slice (Some (int I)) (Some (int R)) T = drop I T"
    "py_slice None (Some (int R - int I)) T = take (R - I) T"
    using py_slice_from[of I T] py_slice_upto[of I T] len I by simp_all
  have cs: "py_slice (Some (int J)) (Some (int C)) row = drop J row"
    "py_slice None (Some (int C - int J)) row = take (C - J) row" if "row \<in> set T" for row
    using py_slice_from[of J row] py_slice_upto[of J row] rows[OF that] J by simp_all
  show "map (py_slice (Some (int J)) (Some (int C))) (py_slice (Some (int I)) (Some (int R)) T)
           = map (drop J) (drop I T)"
    unfolding rs by (rule map_cong[OF refl]) (auto dest: in_set_dropD simp: cs)
  show "map (py_slice (Some (int J)) (Some (int C))) (py_slice None (Some (int R - int I)) T)
           = map (drop J) (take (R - I) T)"
    unfolding rs by (rule map_cong[OF refl]) (auto dest: in_set_takeD simp: cs)
  show "map (py_slice None (Some (int C - int J))) (py_slice None (Some (int R - int I)) T)
           = map (take (C - J)) (take (R - I) T)"
    unfolding rs by (rule map_cong[OF refl]) (auto dest: in_set_takeD simp: cs)
  show "map (py_slice None (Some (int C - int J))) (py_slice (Some (int I)) (Some (int R)) T)
           = map (take (C - J)) (drop I T)"
    unfolding rs by (rule map_cong[OF refl]) (auto dest: in_set_dropD simp: cs)
qed

lemma table_differences_raw:
  fixes t :: "'a::ab_group_add ndarray"
  assumes wf: "wf_ndarray t" and I: "I \<le> nrows t" and J: "J \<le> ncols t"
  shows "table_differences t (int I) (int J)
         = Inr \<lparr> lead = lead t, nrows = nrows t - I, ncols = ncols t - J,
                 mats = map (diff_mat (nrows t) (ncols t) I J) (mats t) \<rparr>"
proof -
  let ?R = "nrows t" and ?C = "ncols t"
  have tabs: "\<forall>M \<in> set (mats t). is_mat ?R ?C M"
    using wf by (simp add: wf_ndarray_is_mat)
  have sl: "slice_len (Some (int I)) (Some (int ?R)) ?R = ?R - I"
    "slice_len (Some (int J)) (Some (int ?C)) ?C = ?C - J"
    "slice_len None (Some (int ?R - int I)) ?R = ?R - I"
    "slice_len None (Some (int ?C - int J)) ?C = ?C - J"
    using I J by (simp_all add: slice_len_from slice_len_upto)
  have A: "getitem t (Some (int I), Some (int ?R)) (Some (int J), Some (int ?C))
           = \<lparr> lead = lead t, nrows = ?R - I, ncols = ?C - J,
               mats = map (\<lambda>M. map (drop J) (drop I M)) (mats t) \<rparr>"
  proof -
    have "\<forall>M \<in> set (mats t). map (py_slice (Some (int J)) (Some (int ?C))) (py_slice (Some (int I)) (Some (int ?R)) M) = map (drop J) (drop I M)"
      using tabs slice_mat(1)[OF _ I J] by blast
    then show ?thesis
      by (simp add: getitem_def sl cong: map_cong)
  qed
  have B: "getitem t (None, Some (int ?R - int I)) (Some (int J), Some (int ?C))
           = \<lparr> lead = lead t, nrows = ?R - I, ncols = ?C - J,
               mats = map (\<lambda>M. map (drop J) (take (?R - I) M)) (mats t) \<rparr>"
  proof -
    have "\<forall>M \<in> set (mats t). map (py_slice (Some (int J)) (Some (int ?C))) (py_slice None (Some (int ?R - int I)) M) = map (drop J) (take (?R - I) M)"
      using tabs slice_mat(2)[OF _ I J] by blast
    then show ?thesis
      by (simp add: getitem_def sl cong: map_cong)
  qed
  have Cc: "getitem t (None, Some (int ?R - int I)) (None, Some (int ?C - int J))
           = \<lparr> lead = lead t, nrows = ?R - I, ncols = ?C - J,
               mats = map (\<lambda>M. map (take (?C - J)) (take (?R - I) M)) (mats t) \<rparr>"
  proof -
    have "\<forall>M \<in> set (mats t). map (py_slice None (Some (int ?C - int J))) (py_slice None (Some (int ?R - int I)) M) = map (take (?C - J)) (take (?R - I) M)"
      using tabs slice_mat(3)[OF _ I J] by blast
    then show ?thesis
      by (simp add: getitem_def sl cong: map_cong)
  qed
  have D: "getitem t (Some (int I), Some (int ?R)) (None, Some (int ?C - int J))
           = \<lparr> lead = lead t, nrows = ?R - I, ncols = ?C - J,
               mats = map (\<lambda>M. map (take (?C - J)) (drop I M)) (mats t) \<rparr>"
  proof -
    have "\<forall>M \<in> set (mats t). map (py_slice None (Some (int ?C - int J))) (py_slice (Some (int I)) (Some (int ?R)) M) = map (take (?C - J)) (drop I M)"
      using tabs slice_mat(4)[OF _ I J] by blast
    then show ?thesis
      by (simp add: getitem_def sl cong: map_cong)
  qed
  have sA: "\<forall>M \<in> set (mats t). is_mat (?R - I) (?C - J) (map (drop J) (drop I M))"
    and sB: "\<forall>M \<in> set (mats t). is_mat (?R - I) (?C - J) (map (drop J) (take (?R - I) M))"
    and sC: "\<forall>M \<in> set (mats t). is_mat (?R - I) (?C - J) (map (take (?C - J)) (take (?R - I) M))"
    and sD: "\<forall>M \<in> set (mats t). is_mat (?R - I) (?C - J) (map (take (?C - J)) (drop I M))"
    using tabs is_mat_slices[OF _ I J] by blast+
  have 1: "np_sub (getitem t (Some (int I), Some (int ?R)) (Some (int J), Some (int ?C)))
                  (getitem t (None, Some (int ?R - int I)) (Some (int J), Some (int ?C)))
           = Inr \<lparr> lead = lead t, nrows = ?R - I, ncols = ?C - J,
               mats = map (\<lambda>M. map2 (map2 (-)) (map (drop J) (drop I M))
                                 (map (drop J) (take (?R - I) M))) (mats t) \<rparr>"
    unfolding A B np_sub_def using sA sB by (intro np_binop_map) simp
  have s1: "\<forall>M \<in> set (mats t). is_mat (?R - I) (?C - J)
              (map2 (map2 (-)) (map (drop J) (drop I M)) (map (drop J) (take (?R - I) M)))"
    using sA sB by (simp add: is_mat_map2)
  have 2: "np_add \<lparr> lead = lead t, nrows = ?R - I, ncols = ?C - J,
               mats = map (\<lambda>M. map2 (map2 (-)) (map (drop J) (drop I M))
                                 (map (drop J) (take (?R - I) M))) (mats t) \<rparr>
             (getitem t (None, Some (int ?R - int I)) (None, Some (int ?C - int J)))
           = Inr \<lparr> lead = lead t, nrows = ?R - I, ncols = ?C - J,
               mats = map (\<lambda>M. map2 (map2 (+)) (map2 (map2 (-)) (map (drop J) (drop I M))
                                 (map (drop J) (take (?R - I) M)))
                               (map (take (?C - J)) (take (?R - I) M))) (mats t) \<rparr>"
    unfolding Cc np_add_def using s1 sC by (intro np_binop_map) simp
  have s2: "\<forall>M \<in> set (mats t). is_mat (?R - I) (?C - J)
              (map2 (map2 (+)) (map2 (map2 (-)) (map (drop J) (drop I M))
                                 (map (drop J) (take (?R - I) M)))
                               (map (take (?C - J)) (take (?R - I) M)))"
    using s1 sC by (simp add: is_mat_map2)
  have 3: "np_sub \<lparr> lead = lead t, nrows = ?R - I, ncols = ?C - J,
               mats = map (\<lambda>M. map2 (map2 (+)) (map2 (map2 (-)) (map (drop J) (drop I M))
                                 (map (drop J) (take (?R - I) M)))
                               (map (take (?C - J)) (take (?R - I) M))) (mats t) \<rparr>
             (getitem t (Some (int I), Some (int ?R)) (None, Some (int ?C - int J)))
           = Inr \<lparr> lead = lead t, nrows = ?R - I, ncols = ?C - J,
               mats = map (diff_mat ?R ?C I J) (mats t) \<rparr>"
    unfolding D np_sub_def diff_mat_def using s2 sD by (intro np_binop_map) simp
  show ?thesis
    unfolding table_differences_def Let_def
    by (simp add: 1 2 3 bind_err_def)
qed

lemma wf_accumulated: "wf_ndarray p \<Longrightarrow> wf_ndarray (cumsum_m1 (cumsum_m2 p))"
  using is_mat_table
  by (fastforce simp: wf_ndarray_def mats_accumulated shape_accumulated is_mat_def)

lemma table_differences_fit:
  fixes p :: "'a::ab_group_add ndarray"
  assumes wf: "wf_ndarray p" and I: "I \<le> nrows p" and J: "J \<le> ncols p"
  shows "table_differences (cumsum_m1 (cumsum_m2 p)) (int I) (int J) = Inr (brute_boxsum p I J)"
proof -
  have "\<forall>M \<in> set (mats p). diff_mat (nrows p) (ncols p) I J (table M)
          = map (\<lambda>r. map (\<lambda>c. window_sum M I J (Suc r) (Suc c)) [0..<ncols p - J]) [0..<nrows p - I]"
    using wf_ndarray_is_mat[OF wf] mat_formula[OF _ I J] by blast
  then show ?thesis
    using table_differences_raw[OF wf_accumulated[OF wf], of I J] I J
    by (simp add: shape_accumulated mats_accumulated brute_boxsum_def cong: map_cong)
qed

section \<open>The box sum is the sum over the window\<close>

lemma boxsum_unfold_none:
  "boxsum d bs cs None =
     bind_err (py_index (atleast_1d bs) 0) (\<lambda>i. bind_err (py_index (atleast_1d bs) (- 1)) (\<lambda>j.
       table_differences (if cs then cumsum_m1 (cumsum_m2 d) else d) i j))"
  by (simp add: boxsum_def bind_err_def Let_def)

lemma upt3: "[0..<3] = [0, 1, 2]"
  by (simp add: upt_conv_Cons)

text \<open>
  Claim C1. For an array of matrices and box extents \<open>I\<close> by \<open>J\<close> that fit it
  (\<open>I \<le> nrows\<close>, \<open>J \<le> ncols\<close>; among them the sizes 1, 3 and 5), \<open>boxsum\<close> without padding
  returns, at every output position and for every matrix of the batch, exactly the
  brute-force sum of the \<open>I\<close> by \<open>J\<close> window of input cells; the output has
  \<open>nrows - I\<close> rows and \<open>ncols - J\<close> columns.
\<close>

theorem boxsum_eq_window_sums:
  fixes d :: "'a::ab_group_add ndarray"
  assumes "wf_ndarray d"
    and "py_index (atleast_1d bs) 0 = Inr (int I)"
    and "py_index (atleast_1d bs) (- 1) = Inr (int J)"
    and "I \<le> nrows d" and "J \<le> ncols d"
  shows "boxsum d bs True None = Inr (brute_boxsum d I J)"
  using assms table_differences_fit[of d I J]
  by (simp add: boxsum_unfold_none bind_err_def)

theorem boxsum_eq_window_sums_witness:
  "boxsum g44 (Scalar 3) True None = Inr \<lparr> lead = [], nrows = 1, ncols = 1, mats = [[[99]]] \<rparr>"
  using boxsum_eq_window_sums[of g44 "Scalar 3" 3 3]
  by (simp add: g44_def wf_ndarray_def py_index_def brute_boxsum_def window_sum_def upt3)

text \<open>
  Claim C5. Calling \<open>boxsum\<close> with \<open>cumsum=False\<close> on the table that \<open>boxsum\<close> itself
  accumulates (\<open>cumsum(-2)\<close>, then \<open>cumsum(-1)\<close>) gives the same result, or the same
  exception, as calling it with \<open>cumsum=True\<close> on the original array; no padding in
  either call.
\<close>

theorem boxsum_accumulated_input:
  "boxsum (cumsum_m1 (cumsum_m2 d)) bs False None = boxsum d bs True None"
  by (simp add: boxsum_unfold_none)

section \<open>Window views: shape, failure and aliasing\<close>

lemma slice_tail_pos:
  "0 < k \<Longrightarrow> k \<le> length xs \<Longrightarrow> py_slice (Some (- int k)) None xs = drop (length xs - k) xs"
  by (simp add: py_slice_def slice_len_def slice_lo_def slice_hi_def slice_bound_def nat_diff_distrib')

lemma slice_head_pos:
  "0 < k \<Longrightarrow> k \<le> length xs \<Longrightarrow> py_slice None (Some (- int k)) xs = take (length xs - k) xs"
  by (simp add: py_slice_def slice_len_def slice_lo_def slice_hi_def slice_bound_def nat_diff_distrib')

lemma slice_tail_zero: "py_slice (Some 0) None xs = xs"
  by (simp add: py_slice_def slice_len_def slice_lo_def slice_hi_def slice_bound_def)

lemma slice_head_zero: "py_slice None (Some 0) xs = []"
  by (simp add: py_slice_def slice_len_def slice_lo_def slice_hi_def slice_bound_def)

lemma rolling_window_unfold:
  assumes "W \<noteq> []" "length W \<le> length (shape x)"
  shows "rolling_window x W wr =
          (if \<not> list_all (\<lambda>d. 0 < d) (view_shape (shape x) W) then Inl AssertionError
           else as_strided x (view_shape (shape x) W)
                  (strides x @ py_slice (Some (- int (length W))) None (strides x)) wr)"
  using assms
  by (simp add: rolling_window_def Let_def view_shape_def slice_tail_pos slice_head_pos)

lemma view_shape_length:
  "length W \<le> length shp \<Longrightarrow> length (view_shape shp W) = length shp + length W"
  by (simp add: view_shape_def)

lemma rolling_window_ok:
  assumes W: "W \<noteq> []" "length W \<le> length (shape x)"
    and st: "length (strides x) = length (shape x)"
    and pos: "list_all (\<lambda>d. 0 < d) (view_shape (shape x) W)"
  shows "rolling_window x W wr =
           Inr \<lparr> shape = view_shape (shape x) W,
                 strides = strides x @ drop (length (shape x) - length W) (strides x),
                 base = base x, itemsize = itemsize x, writeable = (writeable x \<and> wr) \<rparr>"
proof -
  have neg: "\<not> (\<exists>d \<in> set (view_shape (shape x) W). d < 0)"
    using pos by (auto simp: list_all_iff)
  have tail: "py_slice (Some (- int (length W))) None (strides x)
              = drop (length (shape x) - length W) (strides x)"
    using W st slice_tail_pos[of "length W" "strides x"] by simp
  show ?thesis
    unfolding rolling_window_unfold[OF W] tail as_strided_def
    using pos neg W st by (simp add: view_shape_length)
qed

lemma rolling_window_Inr_shape:
  assumes "rolling_window x W wr = Inr v" "W \<noteq> []"
  shows "length W \<le> length (shape x) \<and> list_all (\<lambda>d. 0 < d) (view_shape (shape x) W)
         \<and> shape v = view_shape (shape x) W"
proof -
  have le: "length W \<le> length (shape x)"
    using assms(1) by (auto simp: rolling_window_def Let_def split: if_splits)
  from assms(1) show ?thesis
    unfolding rolling_window_unfold[OF assms(2) le] using le
    by (auto simp: as_strided_def split: if_splits)
qed


lemma view_shape_mid:
  assumes "length W \<le> length shp" "t < length W"
  shows "shp ! (length shp - length W + t) - W ! t + 1 \<in> set (view_shape shp W)"
proof -
  let ?m = "length shp - length W"
  have "t < length (zip (drop ?m shp) W)" using assms by simp
  then have "map2 (\<lambda>g w. g - w + 1) (drop ?m shp) W ! t \<in> set (map2 (\<lambda>g w. g - w + 1) (drop ?m shp) W)"
    by (intro nth_mem) simp
  moreover have "map2 (\<lambda>g w. g - w + 1) (drop ?m shp) W ! t = shp ! (?m + t) - W ! t + 1"
    using assms by simp
  ultimately show ?thesis by (simp add: view_shape_def)
qed

lemma view_shape_positive:
  assumes le: "length W \<le> length shp"
    and lead: "\<forall>g \<in> set (take (length shp - length W) shp). 0 < g"
    and win: "\<forall>w \<in> set W. 0 < w"
    and fit: "\<forall>t < length W. W ! t \<le> shp ! (length shp - length W + t)"
  shows "list_all (\<lambda>d. 0 < d) (view_shape shp W)"
proof -
  let ?m = "length shp - length W"
  have "0 < d" if "d \<in> set (map2 (\<lambda>g w. g - w + 1) (drop ?m shp) W)" for d
  proof -
    from that obtain t where t: "t < length (map2 (\<lambda>g w. g - w + 1) (drop ?m shp) W)"
      and d: "d = map2 (\<lambda>g w. g - w + 1) (drop ?m shp) W ! t"
      by (auto simp: in_set_conv_nth)
    from t have tk: "t < length W" by simp
    with d le have "d = shp ! (?m + t) - W ! t + 1" by simp
    with fit tk show ?thesis by fastforce
  qed
  then show ?thesis
    using lead win unfolding view_shape_def list_all_iff by auto
qed

text \<open>
  Claim C2, amended. For a non-empty window shape \<open>W\<close> of positive extents with
  \<open>len(W) \<le> len(G.shape)\<close>, leading axes of \<open>G\<close> that all have positive length, and
  every spatial axis at least the window extent, \<open>rolling_window\<close> returns a view whose
  shape is the leading axes, then the spatial extents less the window extents plus 1,
  then \<open>W\<close>.
\<close>

theorem rolling_window_shape:
  assumes "W \<noteq> []" and "length W \<le> length (shape x)"
    and "length (strides x) = length (shape x)"
    and "\<forall>g \<in> set (take (length (shape x) - length W) (shape x)). 0 < g"
    and "\<forall>w \<in> set W. 0 < w"
    and "\<forall>t < length W. W ! t \<le> shape x ! (length (shape x) - length W + t)"
  shows "\<exists>v. rolling_window x W wr = Inr v \<and> shape v = view_shape (shape x) W"
  using rolling_window_ok[OF assms(1-3) view_shape_positive[OF assms(2,4,5,6)], of wr]
  by simp

text \<open>
  Claim C7. Whenever the window has more dimensions than the array, or a window extent
  is larger than the spatial axis it is laid on (so that the output axis would have a
  length below 1), \<open>rolling_window\<close> raises: the call ends in the exception of its
  \<open>assert\<close> statement, which is the shape error of the specification, and returns no
  view; nothing is clamped.
\<close>

theorem rolling_window_raises:
  assumes "length (shape x) < length W \<or>
           (\<exists>t < length W. shape x ! (length (shape x) - length W + t) < W ! t)"
  shows "rolling_window x W wr = Inl AssertionError"
proof (cases "length (shape x) < length W")
  case True
  then show ?thesis by (simp add: rolling_window_def Let_def)
next
  case False
  then have le: "length W \<le> length (shape x)" by simp
  with assms obtain t where t: "t < length W"
    and lt: "shape x ! (length (shape x) - length W + t) < W ! t" by auto
  from t have ne: "W \<noteq> []" by auto
  have "shape x ! (length (shape x) - length W + t) - W ! t + 1 \<in> set (view_shape (shape x) W)"
    using view_shape_mid[OF le t] .
  moreover have "\<not> 0 < shape x ! (length (shape x) - length W + t) - W ! t + 1"
    using lt by simp
  ultimately have "\<not> list_all (\<lambda>d. 0 < d) (view_shape (shape x) W)"
    unfolding list_all_iff by blast
  then show ?thesis by (simp add: rolling_window_unfold[OF ne le])
qed

text \<open>
  The amended claim at a 4 by 5 array and 3 by 3 windows.
\<close>

theorem rolling_window_shape_witness:
  "\<exists>v. rolling_window v45 [3, 3] False = Inr v \<and> shape v = [2, 3, 3, 3]"
  using rolling_window_shape[of "[3, 3]" v45 False]
  by (simp add: v45_def view_shape_def nth_Cons' less_Suc_eq)

text \<open>
  Both cases of claim C7 at a 4 by 5 array: a window of 5 rows, and three window axes.
\<close>

theorem rolling_window_raises_witness:
  "rolling_window v45 [5, 3] False = Inl AssertionError \<and> rolling_window v45 [1, 1, 1] False = Inl AssertionError"
proof -
  have "\<exists>t < length [5, 3 :: int]. shape v45 ! (length (shape v45) - length [5, 3 :: int] + t) < [5, 3] ! t"
    by (rule exI[of _ 0]) (simp add: v45_def)
  then have "rolling_window v45 [5, 3] False = Inl AssertionError"
    using rolling_window_raises[of v45 "[5, 3]" False] by blast
  moreover have "length (shape v45) < length [1, 1, 1 :: int]"
    by (simp add: v45_def)
  then have "rolling_window v45 [1, 1, 1] False = Inl AssertionError"
    using rolling_window_raises[of v45 "[1, 1, 1]" False] by blast
  ultimately show ?thesis by simp
qed

text \<open>
  Claim C2 as stated fails: an array of shape \<open>(0, 3, 3)\<close> and windows \<open>(2, 2)\<close> meet its
  conditions, yet the assertion that every axis of the view is positive fails on the
  empty leading axis, and no view is returned.
\<close>

theorem rolling_window_empty_batch_counterexample:
  "length [2, 2 :: int] \<le> length (shape v033) \<and> [2, 2] ! 0 \<le> shape v033 ! 1 \<and> [2, 2] ! 1 \<le> shape v033 ! 2
   \<and> rolling_window v033 [2, 2] False = Inl AssertionError"
  by (simp add: v033_def rolling_window_def Let_def py_slice_def slice_len_def slice_lo_def
      slice_hi_def slice_bound_def)


lemma np_pad_widths_ok:
  assumes "pads \<noteq> []" "length pads = n" "\<forall>p \<in> set pads. 0 \<le> fst p \<and> 0 \<le> snd p"
  shows "np_pad_widths pads n = Inr pads"
proof -
  have "\<not> (\<exists>p \<in> set pads. fst p < 0 \<or> snd p < 0)" using assms(3) by fastforce
  moreover have "replicate n (hd pads) = pads" if "length pads = 1"
  proof -
    from that obtain a where "pads = [a]" by (cases pads) simp_all
    moreover from that assms(2) have "n = 1" by simp
    ultimately show ?thesis by simp
  qed
  ultimately show ?thesis using assms(1,2) by (simp add: np_pad_widths_def)
qed

lemma padded_shape:
  fixes shp W :: "int list"
  assumes le: "length W \<le> length shp"
  shows "map (\<lambda>(g, p). fst p + g + snd p)
           (zip shp (replicate (nat (int (length shp) - int (length W))) (0, 0) @
                     map (\<lambda>d. (d div 2, d div 2)) W))
         = take (length shp - length W) shp @
           map2 (\<lambda>g w. w div 2 + g + w div 2) (drop (length shp - length W) shp) W"
proof -
  let ?m = "length shp - length W"
  have m: "nat (int (length shp) - int (length W)) = ?m" by arith
  have "zip shp (replicate ?m (0, 0) @ map (\<lambda>d. (d div 2, d div 2)) W)
        = zip (take ?m shp @ drop ?m shp) (replicate ?m (0, 0) @ map (\<lambda>d. (d div 2, d div 2)) W)"
    by simp
  also have "\<dots> = zip (take ?m shp) (replicate ?m (0::int, 0::int)) @
                   zip (drop ?m shp) (map (\<lambda>d. (d div 2, d div 2)) W)"
    by (rule zip_append) simp
  finally have z: "zip shp (replicate ?m (0, 0) @ map (\<lambda>d. (d div 2, d div 2)) W)
        = zip (take ?m shp) (replicate ?m (0::int, 0::int)) @
          zip (drop ?m shp) (map (\<lambda>d. (d div 2, d div 2)) W)" .
  have a: "map (\<lambda>(g, p). fst p + g + snd p) (zip (take ?m shp) (replicate ?m (0::int, 0::int)))
           = take ?m shp"
    by (rule nth_equalityI) simp_all
  have b: "map (\<lambda>(g, p). fst p + g + snd p) (zip (drop ?m shp) (map (\<lambda>d. (d div 2, d div 2)) W))
           = map2 (\<lambda>g w. w div 2 + g + w div 2) (drop ?m shp) W"
    by (rule nth_equalityI) simp_all
  show ?thesis unfolding m z by (simp add: a b)
qed

lemma view_shape_padded_odd:
  fixes shp W :: "int list"
  assumes le: "length W \<le> length shp" and odd: "\<forall>w \<in> set W. odd w"
  shows "view_shape (take (length shp - length W) shp @
           map2 (\<lambda>g w. w div 2 + g + w div 2) (drop (length shp - length W) shp) W) W
         = shp @ W"
proof -
  let ?m = "length shp - length W"
  let ?S = "map2 (\<lambda>g w. w div 2 + g + w div 2) (drop ?m shp) W"
  have lenS: "length ?S = length W" using le by simp
  have len: "length (take ?m shp @ ?S) - length W = ?m" using le by simp
  have mid: "map2 (\<lambda>g w. g - w + 1) ?S W = drop ?m shp"
  proof (rule nth_equalityI)
    show "length (map2 (\<lambda>g w. g - w + 1) ?S W) = length (drop ?m shp)" using le by simp
    fix t assume "t < length (map2 (\<lambda>g w. g - w + 1) ?S W)"
    then have t: "t < length W" by simp
    then have "odd (W ! t)" using odd by simp
    then have "W ! t div 2 + W ! t div 2 = W ! t - 1" by presburger
    then show "map2 (\<lambda>g w. g - w + 1) ?S W ! t = drop ?m shp ! t"
      using t le by simp
  qed
  have "view_shape (take ?m shp @ ?S) W = take ?m shp @ map2 (\<lambda>g w. g - w + 1) ?S W @ W"
    unfolding view_shape_def len using le lenS by (simp del: length_map length_zip)
  also have "\<dots> = take ?m shp @ drop ?m shp @ W" unfolding mid ..
  also have "\<dots> = shp @ W" by simp
  finally show ?thesis .
qed


lemma length_c_strides: "length (c_strides sz shp) = length shp"
  by (simp add: c_strides_def)

text \<open>
  Claim C4, amended. For an array whose axes all have positive length and a non-empty
  window shape \<open>W\<close> of odd positive extents with \<open>len(W) \<le> len(G.shape)\<close>, \<open>pad_and_roll\<close>
  returns a view of shape \<open>G.shape + W\<close>: the leading and the spatial axes are those of
  the unpadded array.
\<close>

theorem pad_and_roll_shape:
  assumes W: "W \<noteq> []" "length W \<le> length (shape x)"
    and pos: "\<forall>g \<in> set (shape x). 0 < g"
    and odd: "\<forall>w \<in> set W. 0 < w \<and> odd w"
  shows "\<exists>v. pad_and_roll x W wr fresh = Inr v \<and> shape v = shape x @ W"
proof -
  let ?n = "length (shape x)" and ?k = "length W"
  let ?pads = "replicate (nat (int ?n - int ?k)) (0::int, 0::int) @ map (\<lambda>d. (d div 2, d div 2)) W"
  define shp where "shp = take (?n - ?k) (shape x) @
              map2 (\<lambda>g w. w div 2 + g + w div 2) (drop (?n - ?k) (shape x)) W"
  define p where "p = \<lparr> shape = shp, strides = c_strides (itemsize x) shp, base = fresh,
              itemsize = itemsize x, writeable = True \<rparr>"
  have m: "nat (int ?n - int ?k) = ?n - ?k" by arith
  have "0 \<le> w div 2" if "w \<in> set W" for w
    using odd that by (simp add: pos_imp_zdiv_nonneg_iff less_imp_le)
  then have "\<forall>p \<in> set ?pads. 0 \<le> fst p \<and> 0 \<le> snd p"
    by auto
  moreover have "?pads \<noteq> []" using W by simp
  moreover have "length ?pads = ?n" using W by (simp add: m)
  ultimately have "np_pad_widths ?pads ?n = Inr ?pads" by (rule np_pad_widths_ok[rotated 2])
  then have pad: "np_pad_view x ?pads fresh = Inr p"
    unfolding p_def shp_def using padded_shape[OF W(2)]
    by (simp add: np_pad_view_def bind_err_def Let_def)
  have lenp: "length shp = ?n" unfolding shp_def using W by simp
  have vs: "view_shape shp W = shape x @ W"
    unfolding shp_def using view_shape_padded_odd[OF W(2)] odd by blast
  have all: "list_all (\<lambda>d. 0 < d) (shape x @ W)"
    using pos odd by (auto simp: list_all_iff)
  have "rolling_window p W wr =
      Inr \<lparr> shape = view_shape (shape p) W,
            strides = strides p @ drop (length (shape p) - length W) (strides p),
            base = base p, itemsize = itemsize p, writeable = (writeable p \<and> wr) \<rparr>"
    using W lenp all by (intro rolling_window_ok) (simp_all add: p_def length_c_strides vs)
  then show ?thesis
    unfolding pad_and_roll_def Let_def pad bind_err_def using vs by (simp add: p_def)
qed


lemma slice_simps:
  "py_slice None (Some (- 2)) [a, b] = []"
  "py_slice (Some (- 2)) None [a, b] = [a, b]"
  "py_slice None (Some (- 2)) [a, b, c] = [a]"
  "py_slice (Some (- 2)) None [a, b, c] = [b, c]"
  by (simp_all add: py_slice_def slice_len_def slice_lo_def slice_hi_def slice_bound_def)

text \<open>
  The amended claim at a 4 by 5 array and 3 by 3 windows.
\<close>

theorem pad_and_roll_shape_witness:
  "\<exists>v. pad_and_roll v45 [3, 3] False 5000 = Inr v \<and> shape v = [4, 5, 3, 3]"
  using pad_and_roll_shape[of "[3, 3]" v45 False 5000]
  by (simp add: v45_def)

text \<open>
  Claim C4 as stated fails: for an array of shape \<open>(0, 3)\<close> and windows \<open>(3, 3)\<close> the
  assertion of \<open>rolling_window\<close> fails on the empty axis and \<open>pad_and_roll\<close> raises.
\<close>

theorem pad_and_roll_empty_axis_counterexample:
  "pad_and_roll v03 [3, 3] False 5000 = Inl AssertionError"
  by (simp add: v03_def pad_and_roll_def np_pad_view_def np_pad_widths_def bind_err_def
      rolling_window_def Let_def slice_simps c_strides_def)

text \<open>
  With an even window extent the padding \<open>d // 2\<close> on both sides adds \<open>d\<close> cells, and
  the view has one position more than the array along that axis.
\<close>

lemma pad_and_roll_even_extent:
  "map_sum id shape (pad_and_roll v45 [2, 2] False 5000) = Inr [5, 6, 2, 2]"
  by (simp add: v45_def pad_and_roll_def np_pad_view_def np_pad_widths_def bind_err_def
      rolling_window_def as_strided_def Let_def slice_simps c_strides_def)

lemma sum_zip_append:
  fixes xs ys us vs :: "int list"
  assumes "length xs = length us"
  shows "sum_list (map2 (*) (xs @ ys) (us @ vs)) = sum_list (map2 (*) xs us) + sum_list (map2 (*) ys vs)"
  using assms by (simp add: zip_append)

lemma sum_zip_add:
  fixes p q s :: "int list"
  assumes "length p = length q" "length q = length s"
  shows "sum_list (map2 (*) (map2 (+) p q) s) = sum_list (map2 (*) p s) + sum_list (map2 (*) q s)"
  using assms by (induction p q s rule: list_induct3) (simp_all add: algebra_simps)

lemma address_window:
  fixes b p q s :: "int list"
  assumes st: "length s = n" and k: "k \<le> n"
    and b: "length b = n - k" and p: "length p = k" and q: "length q = k"
  shows "sum_list (map2 (*) (b @ p @ q) (s @ drop (n - k) s))
         = sum_list (map2 (*) (b @ map2 (+) p q) s)"
proof -
  let ?m = "n - k"
  have s: "s = take ?m s @ drop ?m s" by simp
  have lt: "length (take ?m s) = length b" and ld: "length (drop ?m s) = k"
    using st k b by simp_all
  have e0: "sum_list (map2 (*) (b @ p @ q) (s @ drop ?m s))
        = sum_list (map2 (*) (b @ p @ q) (take ?m s @ drop ?m s @ drop ?m s))"
    by (simp only: append_assoc[symmetric] append_take_drop_id)
  have e1: "sum_list (map2 (*) (b @ p @ q) (take ?m s @ drop ?m s @ drop ?m s))
        = sum_list (map2 (*) b (take ?m s)) + sum_list (map2 (*) (p @ q) (drop ?m s @ drop ?m s))"
    by (rule sum_zip_append) (simp add: st k b)
  have e2: "sum_list (map2 (*) (p @ q) (drop ?m s @ drop ?m s))
             = sum_list (map2 (*) p (drop ?m s)) + sum_list (map2 (*) q (drop ?m s))"
    by (rule sum_zip_append) (simp add: st k p)
  have e3: "sum_list (map2 (*) p (drop ?m s)) + sum_list (map2 (*) q (drop ?m s))
            = sum_list (map2 (*) (map2 (+) p q) (drop ?m s))"
    by (rule sum_zip_add[symmetric]) (simp_all add: p q st k)
  have e4: "sum_list (map2 (*) b (take ?m s)) + sum_list (map2 (*) (map2 (+) p q) (drop ?m s))
             = sum_list (map2 (*) (b @ map2 (+) p q) (take ?m s @ drop ?m s))"
    by (rule sum_zip_append[symmetric]) (simp add: st k b)
  have e5: "sum_list (map2 (*) (b @ map2 (+) p q) (take ?m s @ drop ?m s))
            = sum_list (map2 (*) (b @ map2 (+) p q) s)"
    by simp
  show ?thesis
    unfolding e0 e1 e2 e3 e4 e5 ..
qed

lemma norm_index_id:
  "list_all2 (\<lambda>i n. 0 \<le> i \<and> i < n) idx shp \<Longrightarrow> norm_index shp idx = Inr idx"
proof -
  assume a: "list_all2 (\<lambda>i n. 0 \<le> i \<and> i < n) idx shp"
  then have len: "length idx = length shp" by (rule list_all2_lengthD)
  have r: "list_all2 (\<lambda>i n. - n \<le> i \<and> i < n) idx shp"
    using a by (rule list_all2_mono) auto
  have "map2 (\<lambda>i n. if i < 0 then i + n else i) idx shp = idx"
  proof (rule nth_equalityI)
    show "length (map2 (\<lambda>i n. if i < 0 then i + n else i) idx shp) = length idx"
      using len by simp
    fix t assume "t < length (map2 (\<lambda>i n. if i < 0 then i + n else i) idx shp)"
    then have t: "t < length idx" "t < length shp" by simp_all
    with a have "0 \<le> idx ! t" by (auto simp: list_all2_conv_all_nth)
    with t show "map2 (\<lambda>i n. if i < 0 then i + n else i) idx shp ! t = idx ! t" by simp
  qed
  with len r show ?thesis by (simp add: norm_index_def)
qed

lemma source_index_in_range:
  assumes k: "length W \<le> length shp"
    and b: "length b = length shp - length W" and p: "length p = length W" and q: "length q = length W"
    and r: "list_all2 (\<lambda>i n. 0 \<le> i \<and> i < n) (b @ p @ q) (view_shape shp W)"
  shows "list_all2 (\<lambda>i n. 0 \<le> i \<and> i < n) (b @ map2 (+) p q) shp"
proof -
  let ?m = "length shp - length W"
  let ?P = "\<lambda>i n :: int. 0 \<le> i \<and> i < n"
  let ?mid = "map2 (\<lambda>g w. g - w + 1) (drop ?m shp) W"
  have lm: "length ?mid = length W" using k by simp
  from r have r': "list_all2 ?P (b @ p @ q) (take ?m shp @ ?mid @ W)"
    by (simp add: view_shape_def)
  have 1: "list_all2 ?P b (take ?m shp)" and 23: "list_all2 ?P (p @ q) (?mid @ W)"
    using r' b k by (simp_all add: list_all2_append)
  have 2: "list_all2 ?P p ?mid" and 3: "list_all2 ?P q W"
    using 23 p lm by (simp_all add: list_all2_append del: length_map length_zip)
  have "list_all2 ?P (map2 (+) p q) (drop ?m shp)"
  proof (rule list_all2_all_nthI)
    show "length (map2 (+) p q) = length (drop ?m shp)" using p q k by simp
    fix t assume "t < length (map2 (+) p q)"
    then have t: "t < length W" using p q by simp
    have tp: "t < length p" and tq: "t < length q" using t p q by simp_all
    have a: "?P (p ! t) (?mid ! t)" by (rule list_all2_nthD[OF 2 tp])
    have m: "?mid ! t = drop ?m shp ! t - W ! t + 1" using t k by simp
    have c: "?P (q ! t) (W ! t)" by (rule list_all2_nthD[OF 3 tq])
    have "map2 (+) p q ! t = p ! t + q ! t" using tp tq by simp
    with a c show "?P (map2 (+) p q ! t) (drop ?m shp ! t)" unfolding m by linarith
  qed
  with 1 have "list_all2 ?P (b @ map2 (+) p q) (take ?m shp @ drop ?m shp)"
    by (rule list_all2_appendI)
  then show ?thesis by simp
qed


lemma view45_rolling:
  "\<exists>v. rolling_window v45 [3, 3] True = Inr v \<and> shape v = [2, 3, 3, 3]"
  by (simp add: v45_def rolling_window_def as_strided_def Let_def slice_simps)

text \<open>
  Claim C9. Let \<open>v\<close> be the view \<open>rolling_window\<close> returns for a writeable array \<open>x\<close>
  with \<open>writeable=True\<close>. The cell of \<open>v\<close> at leading indices \<open>b\<close>, spatial position \<open>p\<close>
  and window offset \<open>q\<close> is the cell of \<open>x\<close> at \<open>b\<close> and \<open>p + q\<close>. A write through \<open>v\<close>
  at \<open>(b, p1, q1)\<close> is read back at every \<open>(b, p2, q2)\<close> with \<open>p2 + q2 = p1 + q1\<close> and
  in \<open>x\<close> at \<open>p1 + q1\<close>. Through the view made with \<open>writeable=False\<close> every write
  raises, so the memory of \<open>x\<close> is not changed.
\<close>

theorem rolling_window_aliasing:
  fixes mem :: "'a memory"
  assumes rw: "rolling_window x W True = Inr v" and ne: "W \<noteq> []"
    and wx: "writeable x" and st: "length (strides x) = length (shape x)"
    and b: "length b = length (shape x) - length W"
    and p1: "length p1 = length W" and q1: "length q1 = length W"
    and p2: "length p2 = length W" and q2: "length q2 = length W"
    and r1: "list_all2 (\<lambda>i n. 0 \<le> i \<and> i < n) (b @ p1 @ q1) (shape v)"
    and r2: "list_all2 (\<lambda>i n. 0 \<le> i \<and> i < n) (b @ p2 @ q2) (shape v)"
    and same: "map2 (+) p1 q1 = map2 (+) p2 q2"
  shows "view_get mem v (b @ p1 @ q1) = view_get mem x (b @ map2 (+) p1 q1) \<and>
         (\<exists>mem'. view_set mem v (b @ p1 @ q1) val = Inr mem' \<and>
                 view_get mem' v (b @ p2 @ q2) = Inr val \<and>
                 view_get mem' x (b @ map2 (+) p1 q1) = Inr val) \<and>
         (\<forall>u idx. rolling_window x W False = Inr u \<longrightarrow> view_set mem u idx val = Inl ValueError)"
proof -
  let ?n = "length (shape x)" and ?k = "length W"
  from rolling_window_Inr_shape[OF rw ne]
  have le: "?k \<le> ?n" and pos: "list_all (\<lambda>d. 0 < d) (view_shape (shape x) W)"
    and sv: "shape v = view_shape (shape x) W" by simp_all
  have v: "v = \<lparr> shape = view_shape (shape x) W,
                  strides = strides x @ drop (?n - ?k) (strides x),
                  base = base x, itemsize = itemsize x, writeable = True \<rparr>"
    using rolling_window_ok[OF ne le st pos, of True] rw wx by simp
  have addr: "address v (b @ p @ q) = address x (b @ map2 (+) p q)"
    if "length p = ?k" "length q = ?k" for p q
    using address_window[OF st le b that] by (simp add: address_def v)
  have n1: "norm_index (shape v) (b @ p1 @ q1) = Inr (b @ p1 @ q1)"
    and n2: "norm_index (shape v) (b @ p2 @ q2) = Inr (b @ p2 @ q2)"
    using r1 r2 by (simp_all add: norm_index_id)
  have s1: "norm_index (shape x) (b @ map2 (+) p1 q1) = Inr (b @ map2 (+) p1 q1)"
    using source_index_in_range[OF le b p1 q1] r1 sv by (simp add: norm_index_id)
  have wv: "writeable v" by (subst v) simp
  let ?mem' = "mem (address v (b @ p1 @ q1) := val)"
  have get: "view_get mem v (b @ p1 @ q1) = view_get mem x (b @ map2 (+) p1 q1)"
    by (simp add: view_get_def n1 s1 bind_err_def addr[OF p1 q1])
  have set: "view_set mem v (b @ p1 @ q1) val = Inr ?mem'"
    using wv by (simp add: view_set_def n1 bind_err_def)
  have a12: "address v (b @ p2 @ q2) = address v (b @ p1 @ q1)"
    using addr[OF p1 q1] addr[OF p2 q2] same by simp
  have g2: "view_get ?mem' v (b @ p2 @ q2) = Inr val"
    by (simp add: view_get_def n2 bind_err_def a12)
  have g3: "view_get ?mem' x (b @ map2 (+) p1 q1) = Inr val"
    by (simp add: view_get_def s1 bind_err_def addr[OF p1 q1, symmetric])
  have ro: "view_set mem u idx val = Inl ValueError" if "rolling_window x W False = Inr u" for u idx
  proof -
    have "u = \<lparr> shape = view_shape (shape x) W,
                  strides = strides x @ drop (?n - ?k) (strides x),
                  base = base x, itemsize = itemsize x, writeable = False \<rparr>"
      using rolling_window_ok[OF ne le st pos, of False] that by simp
    then have "\<not> writeable u" by simp
    then show ?thesis by (simp add: view_set_def)
  qed
  from get set g2 g3 ro show ?thesis by blast
qed

text \<open>
  Claim C9 at a 4 by 5 array and 3 by 3 windows: position \<open>(0, 1)\<close> with offset
  \<open>(1, 1)\<close> and position \<open>(1, 2)\<close> with offset \<open>(0, 0)\<close> are both the cell \<open>(1, 2)\<close>.
\<close>

theorem rolling_window_aliasing_witness:
  "\<exists>v. rolling_window v45 [3, 3] True = Inr v \<and>
     view_get mem0 v [0, 1, 1, 1] = view_get mem0 v45 [1, 2] \<and>
     (\<exists>mem'. view_set mem0 v [0, 1, 1, 1] 7 = Inr mem' \<and>
             view_get mem' v [1, 2, 0, 0] = Inr 7 \<and>
             view_get mem' v45 [1, 2] = Inr 7)"
proof -
  obtain v where v: "rolling_window v45 [3, 3] True = Inr v" and sv: "shape v = [2, 3, 3, 3]"
    using view45_rolling by blast
  have "list_all2 (\<lambda>i n. 0 \<le> i \<and> i < n) ([] @ [0, 1] @ [1, 1]) (shape v)"
    "list_all2 (\<lambda>i n. 0 \<le> i \<and> i < n) ([] @ [1, 2] @ [0, 0]) (shape v)"
    by (simp_all add: sv)
  from rolling_window_aliasing[OF v _ _ _ _ _ _ _ _ this, of mem0 7]
  show ?thesis using v by (auto simp: v45_def)
qed

section \<open>Shapes of the box sum, padding and batches\<close>

lemma broadcast_dim_absorb:
  assumes "broadcast_dim x y = Some z"
  shows "broadcast_dim z y = Some z" and "broadcast_dim z x = Some z"
  using assms by (auto simp: broadcast_dim_def split: if_splits)

lemma np_binop_Inr:
  assumes "lead a = lead b" "broadcast_dim (nrows a) (nrows b) = Some r"
    "broadcast_dim (ncols a) (ncols b) = Some c"
  shows "\<exists>z. np_binop f a b = Inr z \<and> lead z = lead a \<and> nrows z = r \<and> ncols z = c"
  using assms by (simp add: np_binop_def)

lemma np_binop_Inl:
  assumes "broadcast_dim (nrows a) (nrows b) = None \<or> broadcast_dim (ncols a) (ncols b) = None"
  shows "np_binop f a b = Inl ValueError"
  using assms by (auto simp: np_binop_def split: option.splits)

lemma getitem_shape:
  "lead (getitem d rs cs) = lead d"
  "nrows (getitem d rs cs) = slice_len (fst rs) (snd rs) (nrows d)"
  "ncols (getitem d rs cs) = slice_len (fst cs) (snd cs) (ncols d)"
  by (simp_all add: getitem_def)

lemma table_differences_shape:
  fixes t :: "'a::ab_group_add ndarray" and i j :: int
  defines "ar \<equiv> slice_len (Some i) (Some (int (nrows t))) (nrows t)"
    and "br \<equiv> slice_len None (Some (int (nrows t) - i)) (nrows t)"
    and "ac \<equiv> slice_len (Some j) (Some (int (ncols t))) (ncols t)"
    and "bc \<equiv> slice_len None (Some (int (ncols t) - j)) (ncols t)"
  shows "(\<forall>rr cc. broadcast_dim ar br = Some rr \<and> broadcast_dim ac bc = Some cc \<longrightarrow>
            (\<exists>r. table_differences t i j = Inr r \<and> lead r = lead t \<and> nrows r = rr \<and> ncols r = cc))
         \<and> (broadcast_dim ar br = None \<or> broadcast_dim ac bc = None \<longrightarrow>
              table_differences t i j = Inl ValueError)"
proof (intro conjI allI impI)
  let ?A = "getitem t (Some i, Some (int (nrows t))) (Some j, Some (int (ncols t)))"
  let ?B = "getitem t (None, Some (int (nrows t) - i)) (Some j, Some (int (ncols t)))"
  let ?C = "getitem t (None, Some (int (nrows t) - i)) (None, Some (int (ncols t) - j))"
  let ?D = "getitem t (Some i, Some (int (nrows t))) (None, Some (int (ncols t) - j))"
  have td: "table_differences t i j =
      bind_err (np_sub ?A ?B) (\<lambda>t1. bind_err (np_add t1 ?C) (\<lambda>t2. np_sub t2 ?D))"
    by (simp add: table_differences_def Let_def)
  have shp: "lead ?A = lead t" "lead ?B = lead t" "lead ?C = lead t" "lead ?D = lead t"
    "nrows ?A = ar" "nrows ?B = br" "nrows ?C = br" "nrows ?D = ar"
    "ncols ?A = ac" "ncols ?B = ac" "ncols ?C = bc" "ncols ?D = bc"
    by (simp_all add: getitem_shape ar_def br_def ac_def bc_def)
  have acac: "broadcast_dim ac ac = Some ac" by (simp add: broadcast_dim_def)
  {
    fix rr cc assume "broadcast_dim ar br = Some rr \<and> broadcast_dim ac bc = Some cc"
    then have r: "broadcast_dim ar br = Some rr" and c: "broadcast_dim ac bc = Some cc" by simp_all
    obtain t1 where t1: "np_sub ?A ?B = Inr t1" "lead t1 = lead t" "nrows t1 = rr" "ncols t1 = ac"
      using np_binop_Inr[of ?A ?B rr ac "\<lambda>x y. x - y"] r acac shp by (auto simp: np_sub_def)
    obtain t2 where t2: "np_add t1 ?C = Inr t2" "lead t2 = lead t" "nrows t2 = rr" "ncols t2 = cc"
      using np_binop_Inr[of t1 ?C rr cc "\<lambda>x y. x + y"] broadcast_dim_absorb(1)[OF r] c shp t1
      by (auto simp: np_add_def)
    obtain t3 where t3: "np_sub t2 ?D = Inr t3" "lead t3 = lead t" "nrows t3 = rr" "ncols t3 = cc"
      using np_binop_Inr[of t2 ?D rr cc "\<lambda>x y. x - y"] broadcast_dim_absorb(2)[OF r]
        broadcast_dim_absorb(1)[OF c] shp t2
      by (auto simp: np_sub_def)
    show "\<exists>r. table_differences t i j = Inr r \<and> lead r = lead t \<and> nrows r = rr \<and> ncols r = cc"
      using t1 t2 t3 by (simp add: td bind_err_def)
  }
  assume bad: "broadcast_dim ar br = None \<or> broadcast_dim ac bc = None"
  show "table_differences t i j = Inl ValueError"
  proof (cases "broadcast_dim ar br")
    case None
    then have "np_sub ?A ?B = Inl ValueError"
      using np_binop_Inl[of ?A ?B "\<lambda>x y. x - y"] shp by (simp add: np_sub_def)
    then show ?thesis by (simp add: td bind_err_def)
  next
    case (Some rr)
    with bad have c: "broadcast_dim ac bc = None" by simp
    obtain t1 where t1: "np_sub ?A ?B = Inr t1" "lead t1 = lead t" "nrows t1 = rr" "ncols t1 = ac"
      using np_binop_Inr[of ?A ?B rr ac "\<lambda>x y. x - y"] Some acac shp by (auto simp: np_sub_def)
    have "np_add t1 ?C = Inl ValueError"
      using np_binop_Inl[of t1 ?C "\<lambda>x y. x + y"] c shp t1 by (simp add: np_add_def)
    then show ?thesis using t1 by (simp add: td bind_err_def)
  qed
qed


lemma slice_len_start: "slice_len (Some (int I)) (Some (int R)) R = R - I"
  by (simp add: slice_len_def slice_lo_def slice_hi_def slice_bound_def)

lemma slice_len_stop:
  "slice_len None (Some (int R - int I)) R = (if I \<le> R then R - I else 2 * R - I)"
  by (simp add: slice_len_def slice_lo_def slice_hi_def slice_bound_def nat_int_diff)
    (auto simp: max_def nat_diff_distrib' intro: arg_cong[where f = nat])

lemma accumulated_or_not_shape:
  "lead (if cs then cumsum_m1 (cumsum_m2 d) else d) = lead d"
  "nrows (if cs then cumsum_m1 (cumsum_m2 d) else d) = nrows d"
  "ncols (if cs then cumsum_m1 (cumsum_m2 d) else d) = ncols d"
  by (simp_all add: shape_accumulated)

text \<open>
  Claim C8, amended. Let the box be \<open>I\<close> by \<open>J\<close> and larger than the array along the
  rows or the columns, with no padding. Along an axis of length \<open>R\<close> with \<open>I > R\<close> the two
  slices \<open>data[I:]\<close> and \<open>data[:R - I]\<close> have lengths 0 and \<open>max (2R - I) 0\<close>, since the
  negative bound counts from the end. \<open>boxsum\<close> completes, with a result that is empty
  along every axis the box exceeds, exactly when \<open>I \<le> R\<close> or \<open>2R \<le> I + 1\<close>, and
  likewise for the columns; in every other case the subtraction of the two slices
  raises \<open>ValueError\<close>.
\<close>

theorem boxsum_oversized_box:
  fixes d :: "'a::ab_group_add ndarray"
  assumes i: "py_index (atleast_1d bs) 0 = Inr (int I)"
    and j: "py_index (atleast_1d bs) (- 1) = Inr (int J)"
    and over: "nrows d < I \<or> ncols d < J"
  shows "if (I \<le> nrows d \<or> 2 * nrows d \<le> I + 1) \<and> (J \<le> ncols d \<or> 2 * ncols d \<le> J + 1)
         then \<exists>r. boxsum d bs cs None = Inr r \<and> nrows r = nrows d - I \<and> ncols r = ncols d - J
                \<and> (nrows d < I \<longrightarrow> nrows r = 0) \<and> (ncols d < J \<longrightarrow> ncols r = 0)
         else boxsum d bs cs None = Inl ValueError"
proof -
  let ?t = "if cs then cumsum_m1 (cumsum_m2 d) else d"
  let ?R = "nrows d" and ?C = "ncols d"
  have bs: "boxsum d bs cs None = table_differences ?t (int I) (int J)"
    by (simp add: boxsum_unfold_none i j bind_err_def)
  note sh = table_differences_shape[of "int I" ?t "int J", unfolded accumulated_or_not_shape
      slice_len_start slice_len_stop]
  show ?thesis
  proof (cases "(I \<le> ?R \<or> 2 * ?R \<le> I + 1) \<and> (J \<le> ?C \<or> 2 * ?C \<le> J + 1)")
    case True
    then have "broadcast_dim (?R - I) (if I \<le> ?R then ?R - I else 2 * ?R - I) = Some (?R - I)"
      and "broadcast_dim (?C - J) (if J \<le> ?C then ?C - J else 2 * ?C - J) = Some (?C - J)"
      by (auto simp: broadcast_dim_def)
    with sh obtain r where "table_differences ?t (int I) (int J) = Inr r"
      "nrows r = ?R - I" "ncols r = ?C - J" by blast
    with True show ?thesis by (simp add: bs)
  next
    case False
    then have "broadcast_dim (?R - I) (if I \<le> ?R then ?R - I else 2 * ?R - I) = None
             \<or> broadcast_dim (?C - J) (if J \<le> ?C then ?C - J else 2 * ?C - J) = None"
      by (auto simp: broadcast_dim_def)
    with sh have "table_differences ?t (int I) (int J) = Inl ValueError" by blast
    with False show ?thesis by (simp add: bs)
  qed
qed

text \<open>
  Both outcomes: a 6 by 6 box on a 4 by 4 array raises, a 3 by 3 box on a 2 by 2 array
  gives an empty result.
\<close>

theorem boxsum_oversized_box_witness:
  "boxsum ones44 (Scalar 6) True None = Inl ValueError \<and>
   (\<exists>r. boxsum ones22 (Scalar 3) True None = Inr r \<and> nrows r = 0 \<and> ncols r = 0)"
  using boxsum_oversized_box[of "Scalar 6" 6 6 ones44 True]
    boxsum_oversized_box[of "Scalar 3" 3 3 ones22 True]
  by (auto simp: py_index_def ones44_def ones22_def)

text \<open>
  Claim C8 as stated fails: a box of size 5 exceeds a 4 by 4 array, and \<open>boxsum\<close> raises
  \<open>ValueError\<close> (slices of 0 and 3 rows cannot be combined) instead of returning an
  empty result.
\<close>

theorem boxsum_oversized_box_counterexample:
  "nrows ones44 < 5 \<and> boxsum ones44 (Scalar 5) True None = Inl ValueError"
  by (simp add: ones44_def boxsum_unfold_none py_index_def bind_err_def table_differences_def
      Let_def getitem_def np_sub_def np_binop_def broadcast_dim_def cumsum_m1_def cumsum_m2_def
      slice_len_def slice_lo_def slice_hi_def slice_bound_def)

lemma length_pad_lane: "length (pad_lane pol b a xs) = b + length xs + a"
  by (simp add: pad_lane_def)


lemma is_mat_pad_rows:
  assumes "is_mat R C M"
  shows "is_mat (b + R + a) C (pad_rows pol b a C M)"
  using assms by (auto simp: is_mat_def pad_rows_def)


lemma is_mat_pad_mat:
  assumes "is_mat R C M"
  shows "is_mat (I div 2 + 1 + R + I div 2) (J div 2 + 1 + C + J div 2) (pad_mat pol I J C M)"
  using is_mat_pad_rows[OF assms, of "I div 2 + 1" "I div 2" pol]
  by (auto simp: is_mat_def pad_mat_def length_pad_lane)


lemma pad_boxsum_nat:
  assumes i: "py_index (atleast_1d bs) 0 = Inr (int I)"
    and j: "py_index (atleast_1d bs) (- 1) = Inr (int J)"
  shows "pad_boxsum d (Seq (atleast_1d bs)) pol =
           Inr \<lparr> lead = lead d, nrows = I div 2 + 1 + nrows d + I div 2,
                 ncols = J div 2 + 1 + ncols d + J div 2,
                 mats = map (pad_mat pol I J (ncols d)) (mats d) \<rparr>"
proof -
  have n: "nat (int I div 2 + 1) = I div 2 + 1" "nat (int I div 2) = I div 2"
    "nat (int J div 2 + 1) = J div 2 + 1" "nat (int J div 2) = J div 2"
    by (simp_all add: nat_add_distrib nat_div_distrib)
  have nn: "\<not> int I div 2 + 1 < 0" "\<not> int I div 2 < 0" "\<not> int J div 2 + 1 < 0" "\<not> int J div 2 < 0"
    by simp_all
  show ?thesis
    unfolding pad_boxsum_def Let_def atleast_1d.simps i j bind_err_def np_pad_last2_def
    by (simp add: n nn pad_mat_def del: of_nat_add)
qed

lemma boxsum_unfold_some:
  "boxsum d bs cs (Some pol) =
     bind_err (pad_boxsum d (Seq (atleast_1d bs)) pol) (\<lambda>p.
     bind_err (py_index (atleast_1d bs) 0) (\<lambda>i. bind_err (py_index (atleast_1d bs) (- 1)) (\<lambda>j.
       table_differences (if cs then cumsum_m1 (cumsum_m2 p) else p) i j)))"
  by (simp add: boxsum_def bind_err_def Let_def)

lemma boxsum_padded:
  assumes i: "py_index (atleast_1d bs) 0 = Inr (int I)"
    and j: "py_index (atleast_1d bs) (- 1) = Inr (int J)"
  shows "boxsum d bs cs (Some pol) =
     table_differences
       (if cs then cumsum_m1 (cumsum_m2 \<lparr> lead = lead d, nrows = I div 2 + 1 + nrows d + I div 2,
                 ncols = J div 2 + 1 + ncols d + J div 2,
                 mats = map (pad_mat pol I J (ncols d)) (mats d) \<rparr>)
        else \<lparr> lead = lead d, nrows = I div 2 + 1 + nrows d + I div 2,
                 ncols = J div 2 + 1 + ncols d + J div 2,
                 mats = map (pad_mat pol I J (ncols d)) (mats d) \<rparr>) (int I) (int J)"
  by (simp add: boxsum_unfold_some pad_boxsum_nat[OF i j] i j bind_err_def)

lemma wf_padded:
  assumes "wf_ndarray d"
  shows "wf_ndarray \<lparr> lead = lead d, nrows = I div 2 + 1 + nrows d + I div 2,
                 ncols = J div 2 + 1 + ncols d + J div 2,
                 mats = map (pad_mat pol I J (ncols d)) (mats d) \<rparr>"
proof -
  have "is_mat (I div 2 + 1 + nrows d + I div 2) (J div 2 + 1 + ncols d + J div 2)
          (pad_mat pol I J (ncols d) M)" if "M \<in> set (mats d)" for M
    using is_mat_pad_mat[OF wf_ndarray_is_mat[OF assms that]] .
  then show ?thesis using assms by (auto simp: wf_ndarray_def is_mat_def)
qed

text \<open>
  With a pad policy the padded array has \<open>2 * (I div 2) + 1\<close> rows more than the input,
  and the result \<open>I\<close> rows fewer than that: as many rows as the input for an odd \<open>I\<close>, one
  more for an even \<open>I\<close>. No exception is raised for a box of non-negative extents.
\<close>

lemma boxsum_padded_shape:
  fixes d :: "'a::ab_group_add ndarray"
  assumes i: "py_index (atleast_1d bs) 0 = Inr (int I)"
    and j: "py_index (atleast_1d bs) (- 1) = Inr (int J)"
  shows "\<exists>r. boxsum d bs cs (Some pol) = Inr r \<and> lead r = lead d \<and>
             nrows r = nrows d + 1 - I mod 2 \<and> ncols r = ncols d + 1 - J mod 2"
proof -
  let ?R = "I div 2 + 1 + nrows d + I div 2" and ?C = "J div 2 + 1 + ncols d + J div 2"
  let ?p = "\<lparr> lead = lead d, nrows = ?R, ncols = ?C,
                 mats = map (pad_mat pol I J (ncols d)) (mats d) \<rparr>"
  let ?t = "if cs then cumsum_m1 (cumsum_m2 ?p) else ?p"
  have shp: "lead ?t = lead d" "nrows ?t = ?R" "ncols ?t = ?C"
    by (simp_all add: shape_accumulated)
  have le: "I \<le> ?R" "J \<le> ?C" by presburger+
  note sh = table_differences_shape[of "int I" ?t "int J", unfolded shp
      slice_len_start slice_len_stop]
  have "broadcast_dim (?R - I) (if I \<le> ?R then ?R - I else 2 * ?R - I) = Some (?R - I)"
    and "broadcast_dim (?C - J) (if J \<le> ?C then ?C - J else 2 * ?C - J) = Some (?C - J)"
    using le by (simp_all add: broadcast_dim_def)
  with sh obtain r where r: "table_differences ?t (int I) (int J) = Inr r"
    "lead r = lead d" "nrows r = ?R - I" "ncols r = ?C - J" by blast
  have "?R - I = nrows d + 1 - I mod 2" "?C - J = ncols d + 1 - J mod 2" by presburger+
  with r show ?thesis unfolding boxsum_padded[OF i j] by simp
qed

lemma boxsum_padded_shape_odd:
  fixes d :: "'a::ab_group_add ndarray"
  assumes "py_index (atleast_1d bs) 0 = Inr (int I)"
    and "py_index (atleast_1d bs) (- 1) = Inr (int J)"
    and "odd I" and "odd J"
  shows "\<exists>r. boxsum d bs cs (Some pol) = Inr r \<and> lead r = lead d \<and>
             nrows r = nrows d \<and> ncols r = ncols d"
proof -
  have "I mod 2 = 1" "J mod 2 = 1" using assms(3,4) by (simp_all add: odd_iff_mod_2_eq_one)
  with boxsum_padded_shape[OF assms(1,2), of d cs pol] show ?thesis by simp
qed

text \<open>
  Claim C3 on the code: for the 3 by 3 array of ones, box size 2 and constant padding,
  the result of \<open>boxsum\<close> is 4 by 4, not 3 by 3. The claim (and the docstring of
  \<open>boxsum\<close>: with pad options the result has the shape of the input) holds for odd box
  sizes only, see \<open>boxsum_padded_shape_odd\<close>.
\<close>

theorem boxsum_even_box_grows:
  "\<exists>r. boxsum ones33 (Scalar 2) True (Some (constant_pad 0)) = Inr r \<and> nrows r = 4 \<and> ncols r = 4"
  using boxsum_padded_shape[of "Scalar 2" 2 2 ones33 True "constant_pad 0"]
  by (auto simp: py_index_def ones33_def)



lemma py_index_scalar: "py_index (atleast_1d (Scalar b)) 0 = Inr b" "py_index (atleast_1d (Scalar b)) (- 1) = Inr b"
  by (simp_all add: py_index_def)



lemma table_differences_either:
  fixes t :: "'a::ab_group_add ndarray"
  assumes wf: "wf_ndarray t" and I: "I \<le> nrows t" and J: "J \<le> ncols t"
  shows "table_differences (if cs then cumsum_m1 (cumsum_m2 t) else t) (int I) (int J)
         = Inr \<lparr> lead = lead t, nrows = nrows t - I, ncols = ncols t - J,
                 mats = map (\<lambda>M. diff_mat (nrows t) (ncols t) I J (if cs then table M else M)) (mats t) \<rparr>"
proof (cases cs)
  case True
  from table_differences_raw[OF wf_accumulated[OF wf], of I J] I J True
  show ?thesis by (simp add: shape_accumulated mats_accumulated o_def)
next
  case False
  from table_differences_raw[OF wf I J] False show ?thesis by simp
qed

lemma boxsum_uniform:
  assumes i: "py_index (atleast_1d bs) 0 = Inr (int I)"
    and j: "py_index (atleast_1d bs) (- 1) = Inr (int J)"
    and fit: "pol = None \<longrightarrow> I \<le> R \<and> J \<le> C"
  shows "\<exists>F r' c'. \<forall>e :: 'a::ab_group_add ndarray.
           wf_ndarray e \<and> nrows e = R \<and> ncols e = C \<longrightarrow>
           boxsum e bs cs pol = Inr \<lparr> lead = lead e, nrows = r', ncols = c', mats = map F (mats e) \<rparr>"
proof (cases pol)
  case None
  have "boxsum e bs cs pol = Inr \<lparr> lead = lead e, nrows = R - I, ncols = C - J,
          mats = map (\<lambda>M. diff_mat R C I J (if cs then table M else M)) (mats e) \<rparr>"
    if "wf_ndarray e \<and> nrows e = R \<and> ncols e = C" for e :: "'a ndarray"
    using table_differences_either[of e I J cs] that fit None
    by (simp add: boxsum_unfold_none i j bind_err_def)
  then show ?thesis by blast
next
  case (Some p)
  let ?R = "I div 2 + 1 + R + I div 2" and ?C = "J div 2 + 1 + C + J div 2"
  have le: "I \<le> ?R" "J \<le> ?C" by presburger+
  have "boxsum e bs cs pol = Inr \<lparr> lead = lead e, nrows = ?R - I, ncols = ?C - J,
          mats = map (\<lambda>M. diff_mat ?R ?C I J
                       (if cs then table (pad_mat p I J C M) else pad_mat p I J C M)) (mats e) \<rparr>"
    if e: "wf_ndarray e \<and> nrows e = R \<and> ncols e = C" for e :: "'a ndarray"
  proof -
    let ?p = "\<lparr> lead = lead e, nrows = I div 2 + 1 + nrows e + I div 2,
                 ncols = J div 2 + 1 + ncols e + J div 2,
                 mats = map (pad_mat p I J (ncols e)) (mats e) \<rparr>"
    have wfp: "wf_ndarray ?p" using e by (intro wf_padded) simp
    have "I \<le> nrows ?p" "J \<le> ncols ?p" using le e by simp_all
    from table_differences_either[OF wfp this, of cs] e
    show ?thesis unfolding Some boxsum_padded[OF i j] by (simp add: o_def)
  qed
  then show ?thesis by blast
qed

lemma collect_results_Inr: "collect_results (map (\<lambda>b. Inr (g b)) xs) = Inr (map g xs)"
  by (induction xs) (simp_all add: bind_err_def)

lemma np_stack_matrices:
  assumes "0 < B"
  shows "np_stack (map (\<lambda>b. \<lparr> lead = [], nrows = r, ncols = c, mats = [f b] \<rparr>) [0..<B])
         = Inr \<lparr> lead = [B], nrows = r, ncols = c, mats = map f [0..<B] \<rparr>"
proof -
  from assms have u: "[0..<B] = 0 # [Suc 0..<B]" by (simp add: upt_conv_Cons)
  have c: "concat (map mats (map (\<lambda>b. \<lparr> lead = [], nrows = r, ncols = c, mats = [f b] \<rparr>) xs)) = map f xs"
    for xs :: "nat list"
    by (induction xs) simp_all
  have "np_stack (map (\<lambda>b. \<lparr> lead = [], nrows = r, ncols = c, mats = [f b] \<rparr>) (0 # [Suc 0..<B]))
        = Inr \<lparr> lead = [B], nrows = r, ncols = c, mats = map f (0 # [Suc 0..<B]) \<rparr>"
    unfolding np_stack_def using c[of "[Suc 0..<B]"] assms by simp
  then show ?thesis unfolding u .
qed

lemma wf_batch_slice:
  assumes "wf_ndarray d" "b < length (mats d)"
  shows "wf_ndarray (batch_slice d b)"
proof -
  have "mats d ! b \<in> set (mats d)" using assms(2) by (rule nth_mem)
  with assms(1) show ?thesis by (simp add: wf_ndarray_def batch_slice_def)
qed

text \<open>
  Claim C6. For a three-dimensional array with a leading axis of size \<open>B > 0\<close> and a box
  that fits (without padding: \<open>I \<le> nrows\<close> and \<open>J \<le> ncols\<close>; with padding every box of
  non-negative extents fits), \<open>boxsum\<close> of the whole array is the stack, along the
  leading axis, of \<open>boxsum\<close> of each of its \<open>B\<close> matrices, for either value of \<open>cumsum\<close>.
\<close>

theorem boxsum_batch_independent:
  fixes d :: "'a::ab_group_add ndarray"
  assumes wf: "wf_ndarray d" and ld: "lead d = [B]" and B: "0 < B"
    and i: "py_index (atleast_1d bs) 0 = Inr (int I)"
    and j: "py_index (atleast_1d bs) (- 1) = Inr (int J)"
    and fit: "pol = None \<longrightarrow> I \<le> nrows d \<and> J \<le> ncols d"
  shows "boxsum d bs cs pol = stack_results (map (\<lambda>b. boxsum (batch_slice d b) bs cs pol) [0..<B])"
proof -
  from boxsum_uniform[OF i j fit, of cs] obtain F r' c' where
    u: "\<And>e :: 'a ndarray. wf_ndarray e \<Longrightarrow> nrows e = nrows d \<Longrightarrow> ncols e = ncols d \<Longrightarrow>
          boxsum e bs cs pol = Inr \<lparr> lead = lead e, nrows = r', ncols = c', mats = map F (mats e) \<rparr>"
    by blast
  have len: "length (mats d) = B" using wf ld by (simp add: wf_ndarray_def)
  have whole: "boxsum d bs cs pol = Inr \<lparr> lead = [B], nrows = r', ncols = c', mats = map F (mats d) \<rparr>"
    using u[OF wf] ld by simp
  have slice: "boxsum (batch_slice d b) bs cs pol
               = Inr \<lparr> lead = [], nrows = r', ncols = c', mats = [F (mats d ! b)] \<rparr>"
    if "b < B" for b
    using u[OF wf_batch_slice[OF wf], of b] that len by (simp add: batch_slice_def)
  have m: "map (\<lambda>b. boxsum (batch_slice d b) bs cs pol) [0..<B]
        = map (\<lambda>b. Inr \<lparr> lead = [], nrows = r', ncols = c', mats = [F (mats d ! b)] \<rparr>) [0..<B]"
    by (rule map_cong[OF refl]) (simp add: slice)
  have "stack_results (map (\<lambda>b. boxsum (batch_slice d b) bs cs pol) [0..<B])
        = np_stack (map (\<lambda>b. \<lparr> lead = [], nrows = r', ncols = c', mats = [F (mats d ! b)] \<rparr>) [0..<B])"
    unfolding m stack_results_def collect_results_Inr bind_err_def by simp
  also have "\<dots> = Inr \<lparr> lead = [B], nrows = r', ncols = c', mats = map (\<lambda>b. F (mats d ! b)) [0..<B] \<rparr>"
    by (rule np_stack_matrices[OF B])
  finally have st: "stack_results (map (\<lambda>b. boxsum (batch_slice d b) bs cs pol) [0..<B])
        = Inr \<lparr> lead = [B], nrows = r', ncols = c', mats = map (\<lambda>b. F (mats d ! b)) [0..<B] \<rparr>" .
  have "map (\<lambda>b. F (mats d ! b)) [0..<B] = map F (map (\<lambda>b. mats d ! b) [0..<length (mats d)])"
    unfolding len by (simp add: o_def)
  also have "\<dots> = map F (mats d)" by (simp only: map_nth)
  finally have "map (\<lambda>b. F (mats d ! b)) [0..<B] = map F (mats d)" .
  then show ?thesis unfolding whole st by simp
qed


text \<open>
  Claim C6 at a batch of two 2 by 2 matrices, without padding and with constant padding.
\<close>

theorem boxsum_batch_independent_witness:
  "boxsum batch2 (Scalar 1) True None
     = stack_results (map (\<lambda>b. boxsum (batch_slice batch2 b) (Scalar 1) True None) [0..<2])
   \<and> boxsum batch2 (Scalar 3) False (Some (constant_pad 0))
     = stack_results (map (\<lambda>b. boxsum (batch_slice batch2 b) (Scalar 3) False (Some (constant_pad 0))) [0..<2])"
proof -
  have wf: "wf_ndarray batch2" by (simp add: batch2_def wf_ndarray_def)
  have ld: "lead batch2 = [2]" by (simp add: batch2_def)
  have i1: "py_index (atleast_1d (Scalar 1)) 0 = Inr (int 1)"
    and j1: "py_index (atleast_1d (Scalar 1)) (- 1) = Inr (int 1)"
    and i3: "py_index (atleast_1d (Scalar 3)) 0 = Inr (int 3)"
    and j3: "py_index (atleast_1d (Scalar 3)) (- 1) = Inr (int 3)"
    by (simp_all add: py_index_def)
  have fit: "(None :: int pad_policy option) = None \<longrightarrow> 1 \<le> nrows batch2 \<and> 1 \<le> ncols batch2"
    by (simp add: batch2_def)
  have pad: "Some (constant_pad (0::int)) = None \<longrightarrow> 3 \<le> nrows batch2 \<and> 3 \<le> ncols batch2"
    by simp
  show ?thesis
    using boxsum_batch_independent[OF wf ld _ i1 j1 fit, of True]
      boxsum_batch_independent[OF wf ld _ i3 j3 pad, of False]
    by simp
qed

text \<open>
  The padded counterpart of the window-sum theorem: with a pad policy and a box of
  non-negative extents, the result is the brute-force box sum of the padded array,
  which has one output cell more than the input along an axis with an even extent.
\<close>

lemma boxsum_padded_eq_window_sums:
  fixes d :: "'a::ab_group_add ndarray"
  assumes wf: "wf_ndarray d"
    and i: "py_index (atleast_1d bs) 0 = Inr (int I)"
    and j: "py_index (atleast_1d bs) (- 1) = Inr (int J)"
  shows "boxsum d bs True (Some pol) =
           Inr (brute_boxsum \<lparr> lead = lead d, nrows = I div 2 + 1 + nrows d + I div 2,
                                ncols = J div 2 + 1 + ncols d + J div 2,
                                mats = map (pad_mat pol I J (ncols d)) (mats d) \<rparr> I J)"
proof -
  have "I \<le> I div 2 + 1 + nrows d + I div 2" "J \<le> J div 2 + 1 + ncols d + J div 2"
    by presburger+
  then show ?thesis
    unfolding boxsum_padded[OF i j]
    using table_differences_fit[OF wf_padded[OF wf, of I J pol], of I J]
    by simp
qed

end
